theory Spec2Isabelle
  imports Main "HOL-Library.Word" "HOL-Library.Sublist"
begin

section \<open>AppEncOpenCV: a still image encoded 375 times through NVENC\<close>

text \<open>
  The development follows \<^verbatim>\<open>AppEncOpenCV.cpp\<close>. The program is an orchestration of
  calls into the CUDA driver, the NVENC sample classes and OpenCV; none of these is part
  of the repository, so they enter the model as a record of functions (\<open>sdk\<close>) whose
  results may be a failure. What the program itself does (the command line loop, the
  order of the calls, the encode loop, what is written and printed, the exit status)
  is modelled from the source.
\<close>

subsection \<open>C library helpers used by the command line parser\<close>

text \<open>
  \<^verbatim>\<open>_stricmp\<close> compares two C strings ignoring ASCII case; the source tests
  \<^verbatim>\<open>!_stricmp(a, b)\<close>, that is, equality up to case.
\<close>

definition tolower :: "char \<Rightarrow> char" where
  "tolower c = (let n = of_char c :: nat in if 65 \<le> n \<and> n \<le> 90 then char_of (n + 32) else c)"

definition stricmp :: "string \<Rightarrow> string \<Rightarrow> bool" where
  "stricmp a b \<longleftrightarrow> map tolower a = map tolower b"

definition isspace_c :: "char \<Rightarrow> bool" where
  "isspace_c c \<longleftrightarrow> c \<in> set [CHR '' '', CHR 0x09, CHR 0x0A, CHR 0x0B, CHR 0x0C, CHR 0x0D]"

definition isdigit_c :: "char \<Rightarrow> bool" where
  "isdigit_c c \<longleftrightarrow> 48 \<le> (of_char c :: nat) \<and> (of_char c :: nat) \<le> 57"

fun digits_value :: "int \<Rightarrow> string \<Rightarrow> int" where
  "digits_value acc [] = acc"
| "digits_value acc (c # cs) = digits_value (acc * 10 + (of_char c - 48)) cs"

text \<open>
  The decimal conversion shared by \<^verbatim>\<open>atoi\<close> and the \<^verbatim>\<open>%d\<close> of \<^verbatim>\<open>sscanf\<close>: leading
  white space is skipped, one sign is accepted, then the longest run of digits is read.
  The result is \<open>None\<close> when there is no digit, otherwise the value and the unread rest.
  The C standard leaves a value outside the range of \<^verbatim>\<open>int\<close> undefined; the model does
  what the GNU C library does on a 64-bit machine, where both functions convert with
  \<^verbatim>\<open>strtol\<close> and store the \<^verbatim>\<open>long\<close> in an \<^verbatim>\<open>int\<close>: a value outside the range of the 64-bit
  \<^verbatim>\<open>long\<close> becomes the nearest bound (\<open>clamp_long\<close>), and the \<^verbatim>\<open>int\<close> keeps the low 32 bits
  of it, read as a signed number (\<open>to_int32\<close>).
\<close>

definition clamp_long :: "int \<Rightarrow> int" where
  "clamp_long v = max (- (2 ^ 63)) (min (2 ^ 63 - 1) v)"

definition to_int32 :: "int \<Rightarrow> int" where
  "to_int32 v = sint (word_of_int v :: 32 word)"

definition strtol10 :: "string \<Rightarrow> (int \<times> string) option" where
  "strtol10 s =
     (let t = dropWhile isspace_c s;
          neg = (case t of [] \<Rightarrow> False | c # _ \<Rightarrow> c = CHR ''-'');
          u = (case t of [] \<Rightarrow> [] | c # r \<Rightarrow> if c = CHR ''-'' \<or> c = CHR ''+'' then r else t);
          ds = takeWhile isdigit_c u
      in if ds = [] then None
         else Some (to_int32 (clamp_long (if neg then - digits_value 0 ds else digits_value 0 ds)),
                    dropWhile isdigit_c u))"

definition atoi :: "string \<Rightarrow> int" where
  "atoi s = (case strtol10 s of None \<Rightarrow> 0 | Some (v, _) \<Rightarrow> v)"

text \<open>
  \<^verbatim>\<open>sscanf(s, "%dx%d", &nWidth, &nHeight)\<close>: the number of conversions stored, with the
  two variables as they are afterwards. (C returns \<^verbatim>\<open>EOF\<close> instead of 0 when the input
  ends before the first conversion; the caller only compares the result with 2.)
\<close>

definition sscanf_dxd :: "string \<Rightarrow> int \<Rightarrow> int \<Rightarrow> nat \<times> int \<times> int" where
  "sscanf_dxd s w0 h0 =
     (case strtol10 s of
        None \<Rightarrow> (0, w0, h0)
      | Some (w, r) \<Rightarrow>
          (case r of
             [] \<Rightarrow> (1, w, h0)
           | c # r' \<Rightarrow>
               if c \<noteq> CHR ''x'' then (1, w, h0)
               else (case strtol10 r' of
                       None \<Rightarrow> (1, w, h0)
                     | Some (h, _) \<Rightarrow> (2, w, h))))"

text \<open>
  \<^verbatim>\<open>std::find\<close> over a vector: the position of the first element equal to the value,
  the length of the vector standing for \<^verbatim>\<open>end()\<close>. The elements are \<^verbatim>\<open>std::string\<close>s
  compared with \<^verbatim>\<open>==\<close>, so the comparison is exact.
\<close>

fun find_std :: "'a list \<Rightarrow> 'a \<Rightarrow> nat" where
  "find_std [] v = 0"
| "find_std (x # xs) v = (if x = v then 0 else Suc (find_std xs v))"

subsection \<open>The command line\<close>

datatype NV_ENC_BUFFER_FORMAT =
    NV_ENC_BUFFER_FORMAT_IYUV
  | NV_ENC_BUFFER_FORMAT_NV12
  | NV_ENC_BUFFER_FORMAT_YV12
  | NV_ENC_BUFFER_FORMAT_YUV444
  | NV_ENC_BUFFER_FORMAT_YUV420_10BIT
  | NV_ENC_BUFFER_FORMAT_YUV444_10BIT
  | NV_ENC_BUFFER_FORMAT_ARGB
  | NV_ENC_BUFFER_FORMAT_ARGB10
  | NV_ENC_BUFFER_FORMAT_AYUV
  | NV_ENC_BUFFER_FORMAT_ABGR
  | NV_ENC_BUFFER_FORMAT_ABGR10

definition vszFileFormatName :: "string list" where
  "vszFileFormatName =
     [''iyuv'', ''nv12'', ''yv12'', ''yuv444'', ''p010'', ''yuv444p16'',
      ''bgra'', ''bgra10'', ''ayuv'', ''abgr'', ''abgr10'']"

definition aFormat :: "NV_ENC_BUFFER_FORMAT list" where
  "aFormat =
     [NV_ENC_BUFFER_FORMAT_IYUV, NV_ENC_BUFFER_FORMAT_NV12, NV_ENC_BUFFER_FORMAT_YV12,
      NV_ENC_BUFFER_FORMAT_YUV444, NV_ENC_BUFFER_FORMAT_YUV420_10BIT,
      NV_ENC_BUFFER_FORMAT_YUV444_10BIT, NV_ENC_BUFFER_FORMAT_ARGB,
      NV_ENC_BUFFER_FORMAT_ARGB10, NV_ENC_BUFFER_FORMAT_AYUV, NV_ENC_BUFFER_FORMAT_ABGR,
      NV_ENC_BUFFER_FORMAT_ABGR10]"

text \<open>
  The variables \<^verbatim>\<open>ParseCommandLine\<close> writes through its reference parameters, and the
  string stream \<open>oss\<close> in which it collects the encoder options. File names are copied
  into buffers of 256 bytes by \<^verbatim>\<open>sprintf\<close>; the model is about arguments that fit. The
  \<^verbatim>\<open>int\<close> variables receive what \<^verbatim>\<open>atoi\<close> and \<^verbatim>\<open>sscanf\<close> store, which is already reduced
  to 32 bits.
\<close>

record cli =
  szInputFileName :: string
  nWidth :: int
  nHeight :: int
  eFormat :: NV_ENC_BUFFER_FORMAT
  szOutputFileName :: string
  oss :: string
  iGpu :: int
  cuStreamType :: int

text \<open>
  \<^verbatim>\<open>ShowHelpAndExit\<close> never returns: without an argument it prints the help and exits
  with status 0 (\<open>Help\<close>), with one it throws \<^verbatim>\<open>std::invalid_argument\<close> (\<open>BadOption\<close>).
\<close>

datatype parse_stop = Help | BadOption string

definition no_dash :: "string \<Rightarrow> bool" where
  "no_dash s = (case s of [] \<Rightarrow> True | c # _ \<Rightarrow> c \<noteq> CHR ''-'')"

text \<open>
  The \<^verbatim>\<open>for\<close> loop of \<^verbatim>\<open>ParseCommandLine\<close>, over the arguments from \<^verbatim>\<open>argv[1]\<close> on. The
  head of the list is \<^verbatim>\<open>argv[i]\<close>; \<^verbatim>\<open>++i == argc\<close> is the rest being empty.
\<close>

function ParseArgs :: "string list \<Rightarrow> cli \<Rightarrow> parse_stop + cli" where
  "ParseArgs [] st = Inr st"
| "ParseArgs (a # rest) st =
     (if stricmp a ''-h'' then Inl Help
      else if stricmp a ''-i'' then
        (case rest of
           [] \<Rightarrow> Inl (BadOption ''-i'')
         | v # rest' \<Rightarrow> ParseArgs rest' (st\<lparr>szInputFileName := v\<rparr>))
      else if stricmp a ''-o'' then
        (case rest of
           [] \<Rightarrow> Inl (BadOption ''-o'')
         | v # rest' \<Rightarrow> ParseArgs rest' (st\<lparr>szOutputFileName := v\<rparr>))
      else if stricmp a ''-s'' then
        (case rest of
           [] \<Rightarrow> Inl (BadOption ''-s'')
         | v # rest' \<Rightarrow>
             (case sscanf_dxd v (nWidth st) (nHeight st) of
                (n, w, h) \<Rightarrow>
                  if 2 \<noteq> n then Inl (BadOption ''-s'')
                  else ParseArgs rest' (st\<lparr>nWidth := w, nHeight := h\<rparr>)))
      else if stricmp a ''-if'' then
        (case rest of
           [] \<Rightarrow> Inl (BadOption ''-if'')
         | v # rest' \<Rightarrow>
             if find_std vszFileFormatName v = length vszFileFormatName
             then Inl (BadOption ''-if'')
             else ParseArgs rest' (st\<lparr>eFormat := aFormat ! find_std vszFileFormatName v\<rparr>))
      else if stricmp a ''-gpu'' then
        (case rest of
           [] \<Rightarrow> Inl (BadOption ''-gpu'')
         | v # rest' \<Rightarrow> ParseArgs rest' (st\<lparr>iGpu := atoi v\<rparr>))
      else if stricmp a ''-cuStreamType'' then
        (case rest of
           [] \<Rightarrow> Inl (BadOption ''-cuStreamType'')
         | v # rest' \<Rightarrow> ParseArgs rest' (st\<lparr>cuStreamType := atoi v\<rparr>))
      else if no_dash a then Inl (BadOption a)
      else ParseArgs (dropWhile no_dash rest)
             (st\<lparr>oss := oss st @ a @ '' '' @ concat (map (\<lambda>v. v @ '' '') (takeWhile no_dash rest))\<rparr>))"
  by pat_completeness auto
termination
  by (relation "measure (\<lambda>(args, st). length args)")
     (auto simp: less_Suc_eq_le length_dropWhile_le)

text \<open>The locals of \<^verbatim>\<open>main\<close> as they are when \<^verbatim>\<open>ParseCommandLine\<close> is called.\<close>

definition cli0 :: cli where
  "cli0 = \<lparr>szInputFileName = [], nWidth = 0, nHeight = 0,
           eFormat = NV_ENC_BUFFER_FORMAT_IYUV, szOutputFileName = [], oss = [],
           iGpu = 0, cuStreamType = - 1\<rparr>"

subsection \<open>The world outside the program\<close>

type_synonym packet = "8 word list"
type_synonym addr = nat

text \<open>What is inserted into \<^verbatim>\<open>std::cout\<close>: a string or an \<^verbatim>\<open>int\<close>; \<open>endl\<close> is the line end.\<close>

datatype out_item = Str string | Num int

definition endl :: string where
  "endl = [CHR 0x0A]"

text \<open>The host image returned by \<^verbatim>\<open>cv::imread\<close>: its size and its pixels.\<close>

record 'px Mat =
  cols :: int
  rows :: int
  pixels :: 'px

text \<open>The codecs and the capabilities that \<^verbatim>\<open>ShowEncoderCapability\<close> asks about.\<close>

datatype NV_ENC_CODEC_GUID = NV_ENC_CODEC_H264_GUID | NV_ENC_CODEC_HEVC_GUID

datatype NV_ENC_CAPS =
    NV_ENC_CAPS_SUPPORTED_RATECONTROL_MODES
  | NV_ENC_CAPS_SUPPORT_YUV444_ENCODE
  | NV_ENC_CAPS_SUPPORT_MEONLY_MODE
  | NV_ENC_CAPS_WIDTH_MAX
  | NV_ENC_CAPS_HEIGHT_MAX
  | NV_ENC_CAPS_SUPPORT_10BIT_ENCODE
  | NV_ENC_CAPS_SUPPORT_LOSSLESS_ENCODE
  | NV_ENC_CAPS_SUPPORT_SAO

text \<open>The calls into the libraries, as they are logged in the order they are made.\<close>

datatype api_call =
    Call_NvEncoderInitParam string
  | Call_imread string
  | Call_upload
  | Call_cvtColor
  | Call_download
  | Call_ValidateResolution int int
  | Call_cuInit
  | Call_cuDeviceGetCount
  | Call_cuDeviceGet int
  | Call_cuDeviceGetName
  | Call_cuCtxCreate
  | Call_ofstream string
  | Call_NvEncoderCuda int int NV_ENC_BUFFER_FORMAT
  | Call_CreateDefaultEncoderParams
  | Call_SetInitParams NV_ENC_BUFFER_FORMAT
  | Call_CreateEncoder
  | Call_GetNextInputFrame
  | Call_CopyToDeviceFrame addr addr
  | Call_EncodeFrame
  | Call_EndEncode
  | Call_DestroyEncoder
  | Call_GetCapabilityValue NV_ENC_CODEC_GUID NV_ENC_CAPS
  | Call_cuCtxDestroy

text \<open>
  The libraries. \<open>'e\<close> is the state of an encoder object, \<open>'ip\<close> the initialisation
  parameters, \<open>'px\<close> the content of an image buffer. A result \<open>Inl msg\<close> is a failure:
  an exception derived from \<^verbatim>\<open>std::exception\<close> whose \<^verbatim>\<open>what()\<close> is \<open>msg\<close>, or, for the
  CUDA driver functions, an error code whose name is \<open>msg\<close>. Device memory is a map from
  the base address of a buffer to its content; \<open>upload\<close> and \<open>cvtColor\<close> return the
  pointer of the resulting \<^verbatim>\<open>GpuMat\<close> and the memory as they leave it. \<open>GetNextInputFrame\<close>
  is the \<^verbatim>\<open>inputPtr\<close> of the frame it returns.
\<close>

record ('e, 'ip, 'px) sdk =
  GetHelpMessage :: string
  NvEncoderInitParam :: "string \<Rightarrow> string + unit"
  imread :: "string \<Rightarrow> string + 'px Mat"
  upload :: "'px Mat \<Rightarrow> (addr \<Rightarrow> 'px) \<Rightarrow> string + addr \<times> (addr \<Rightarrow> 'px)"
  cvtColor :: "addr \<Rightarrow> (addr \<Rightarrow> 'px) \<Rightarrow> string + addr \<times> (addr \<Rightarrow> 'px)"
  download :: "addr \<Rightarrow> (addr \<Rightarrow> 'px) \<Rightarrow> string + unit"
  ValidateResolution :: "int \<Rightarrow> int \<Rightarrow> string + unit"
  cuInit :: "string + unit"
  cuDeviceGetCount :: "string + int"
  cuDeviceGet :: "int \<Rightarrow> string + int"
  cuDeviceGetName :: "int \<Rightarrow> string + string"
  cuCtxCreate :: "int \<Rightarrow> string + nat"
  ofstream_open :: "string \<Rightarrow> bool"
  NvEncoderCuda :: "nat \<Rightarrow> int \<Rightarrow> int \<Rightarrow> NV_ENC_BUFFER_FORMAT \<Rightarrow> string + 'e"
  CreateDefaultEncoderParams :: "'e \<Rightarrow> string \<Rightarrow> string + 'ip"
  SetInitParams :: "string \<Rightarrow> 'ip \<Rightarrow> NV_ENC_BUFFER_FORMAT \<Rightarrow> string + 'ip"
  CreateEncoder :: "'e \<Rightarrow> 'ip \<Rightarrow> string + 'e"
  GetNextInputFrame :: "'e \<Rightarrow> addr"
  CopyToDeviceFrame :: "nat \<Rightarrow> addr \<Rightarrow> addr \<Rightarrow> (addr \<Rightarrow> 'px) \<Rightarrow> string + unit"
  EncodeFrame :: "'e \<Rightarrow> (addr \<Rightarrow> 'px) \<Rightarrow> string + packet list \<times> 'e"
  EndEncode :: "'e \<Rightarrow> string + packet list \<times> 'e"
  DestroyEncoder :: "'e \<Rightarrow> string + unit"
  GetCapabilityValue :: "'e \<Rightarrow> NV_ENC_CODEC_GUID \<Rightarrow> NV_ENC_CAPS \<Rightarrow> string + int"
  cuCtxDestroy :: "nat \<Rightarrow> string + unit"

text \<open>
  What a run leaves behind. \<open>cout\<close> is the standard output, \<open>dev\<close> the device memory,
  \<open>fpOut\<close> the bytes written to the output stream. The other fields are logs: every
  library call made, the calls that failed with their message, the packet vector each
  successful \<^verbatim>\<open>EncodeFrame\<close> or \<^verbatim>\<open>EndEncode\<close> returned, the buffer of each
  \<^verbatim>\<open>fpOut.write\<close>, and the content of the input frame at each \<^verbatim>\<open>EncodeFrame\<close>.
\<close>

record 'px world =
  cout :: "out_item list"
  dev :: "addr \<Rightarrow> 'px"
  fpOut :: "8 word list"
  calls :: "api_call list"
  failures :: "(api_call \<times> string) list"
  emitted :: "packet list list"
  written :: "packet list"
  submitted :: "'px list"

text \<open>
  A statement either yields a value or leaves the normal flow: by a C++ exception
  (\<open>Throw\<close> with its \<^verbatim>\<open>what()\<close>) or by ending the process with a status (\<open>Exit\<close>:
  \<^verbatim>\<open>exit(n)\<close>, or \<^verbatim>\<open>return n\<close> in \<^verbatim>\<open>main\<close>).
\<close>

datatype abort = Throw string | Exit int

type_synonym ('a, 'px) step = "'px world \<Rightarrow> (abort + 'a) \<times> 'px world"

definition ret :: "'a \<Rightarrow> ('a, 'px) step" where
  "ret x = (\<lambda>w. (Inr x, w))"

definition andThen :: "('a, 'px) step \<Rightarrow> ('a \<Rightarrow> ('b, 'px) step) \<Rightarrow> ('b, 'px) step" where
  "andThen m f = (\<lambda>w. case m w of (Inl a, w') \<Rightarrow> (Inl a, w') | (Inr x, w') \<Rightarrow> f x w')"

definition throw :: "string \<Rightarrow> ('a, 'px) step" where
  "throw msg = (\<lambda>w. (Inl (Throw msg), w))"

definition exit_with :: "int \<Rightarrow> ('a, 'px) step" where
  "exit_with n = (\<lambda>w. (Inl (Exit n), w))"

definition print :: "out_item list \<Rightarrow> (unit, 'px) step" where
  "print items = (\<lambda>w. (Inr (), w\<lparr>cout := cout w @ items\<rparr>))"

text \<open>A library call that reports failure by an exception.\<close>

definition call :: "api_call \<Rightarrow> string + 'a \<Rightarrow> ('a, 'px) step" where
  "call c r =
     (\<lambda>w. case r of
        Inl msg \<Rightarrow> (Inl (Throw msg), w\<lparr>calls := calls w @ [c], failures := failures w @ [(c, msg)]\<rparr>)
      | Inr v \<Rightarrow> (Inr v, w\<lparr>calls := calls w @ [c]\<rparr>))"

text \<open>
  Modelled from the spec: the macro \<^verbatim>\<open>ck\<close> comes from the SDK header
  \<^verbatim>\<open>Utils/NvCodecUtils.h\<close>, which is not in the repository. A CUDA driver call that
  returns an error is an API error, and "argument and API errors raise a described
  failure and terminate with a non-zero status": the error is logged and the process
  exits with status 1.
\<close>

definition ck :: "api_call \<Rightarrow> string + 'a \<Rightarrow> ('a, 'px) step" where
  "ck c r =
     (\<lambda>w. case r of
        Inl msg \<Rightarrow>
          (Inl (Exit 1),
           w\<lparr>calls := calls w @ [c], failures := failures w @ [(c, msg)],
             cout := cout w @ [Str ''CUDA driver API error '', Str msg, Str endl]\<rparr>)
      | Inr v \<Rightarrow> (Inr v, w\<lparr>calls := calls w @ [c]\<rparr>))"

subsection \<open>ShowEncoderCapability\<close>

text \<open>
  One line of the capability table: the label, then the answer of the encoder to one
  question, printed as yes or no. The table is a single chain of insertions into
  \<^verbatim>\<open>std::cout\<close>; its operands are evaluated and inserted from left to right, as C++17
  orders them. The destructor of the encoder object is not logged.
\<close>

definition tab :: string where
  "tab = [CHR 0x09]"

definition cap_yes_no ::
  "('e, 'ip, 'px) sdk \<Rightarrow> 'e \<Rightarrow> string \<Rightarrow> NV_ENC_CODEC_GUID \<Rightarrow> NV_ENC_CAPS \<Rightarrow> (unit, 'px) step" where
  "cap_yes_no sdk enc label codec cap =
     andThen (print [Str label, Str ''  '']) (\<lambda>_.
     andThen (call (Call_GetCapabilityValue codec cap) (GetCapabilityValue sdk enc codec cap)) (\<lambda>v.
     print [Str (if v \<noteq> 0 then ''yes'' else ''no''), Str endl]))"

text \<open>The line with the largest width and height of a codec.\<close>

definition cap_WxH ::
  "('e, 'ip, 'px) sdk \<Rightarrow> 'e \<Rightarrow> string \<Rightarrow> NV_ENC_CODEC_GUID \<Rightarrow> (unit, 'px) step" where
  "cap_WxH sdk enc label codec =
     andThen (print [Str label, Str ''  '']) (\<lambda>_.
     andThen (call (Call_GetCapabilityValue codec NV_ENC_CAPS_WIDTH_MAX)
                (GetCapabilityValue sdk enc codec NV_ENC_CAPS_WIDTH_MAX)) (\<lambda>wmax.
     andThen (print [Num wmax, Str ''*'']) (\<lambda>_.
     andThen (call (Call_GetCapabilityValue codec NV_ENC_CAPS_HEIGHT_MAX)
                (GetCapabilityValue sdk enc codec NV_ENC_CAPS_HEIGHT_MAX)) (\<lambda>hmax.
     print [Num hmax, Str endl]))))"

text \<open>
  The body of the loop over the GPUs: a context and an encoder object of 1280 by 720 in
  NV12 are created for the GPU, the table is printed, the encoder and the context are
  destroyed.
\<close>

definition ShowGpuCapability :: "('e, 'ip, 'px) sdk \<Rightarrow> int \<Rightarrow> (unit, 'px) step" where
  "ShowGpuCapability sdk iGpu' =
     andThen (ck (Call_cuDeviceGet iGpu') (cuDeviceGet sdk iGpu')) (\<lambda>cuDevice.
     andThen (ck Call_cuDeviceGetName (cuDeviceGetName sdk cuDevice)) (\<lambda>szDeviceName.
     andThen (ck Call_cuCtxCreate (cuCtxCreate sdk cuDevice)) (\<lambda>cuContext.
     andThen (call (Call_NvEncoderCuda 1280 720 NV_ENC_BUFFER_FORMAT_NV12)
                (NvEncoderCuda sdk cuContext 1280 720 NV_ENC_BUFFER_FORMAT_NV12)) (\<lambda>enc.
     andThen (print [Str ''GPU '', Num iGpu', Str '' - '', Str szDeviceName, Str endl, Str endl]) (\<lambda>_.
     andThen (cap_yes_no sdk enc (tab @ ''H264:'' @ tab @ tab)
                NV_ENC_CODEC_H264_GUID NV_ENC_CAPS_SUPPORTED_RATECONTROL_MODES) (\<lambda>_.
     andThen (cap_yes_no sdk enc (tab @ ''H264_444:'' @ tab)
                NV_ENC_CODEC_H264_GUID NV_ENC_CAPS_SUPPORT_YUV444_ENCODE) (\<lambda>_.
     andThen (cap_yes_no sdk enc (tab @ ''H264_ME:'' @ tab)
                NV_ENC_CODEC_H264_GUID NV_ENC_CAPS_SUPPORT_MEONLY_MODE) (\<lambda>_.
     andThen (cap_WxH sdk enc (tab @ ''H264_WxH:'' @ tab) NV_ENC_CODEC_H264_GUID) (\<lambda>_.
     andThen (cap_yes_no sdk enc (tab @ ''HEVC:'' @ tab @ tab)
                NV_ENC_CODEC_HEVC_GUID NV_ENC_CAPS_SUPPORTED_RATECONTROL_MODES) (\<lambda>_.
     andThen (cap_yes_no sdk enc (tab @ ''HEVC_Main10:'' @ tab)
                NV_ENC_CODEC_HEVC_GUID NV_ENC_CAPS_SUPPORT_10BIT_ENCODE) (\<lambda>_.
     andThen (cap_yes_no sdk enc (tab @ ''HEVC_Lossless:'' @ tab)
                NV_ENC_CODEC_HEVC_GUID NV_ENC_CAPS_SUPPORT_LOSSLESS_ENCODE) (\<lambda>_.
     andThen (cap_yes_no sdk enc (tab @ ''HEVC_SAO:'' @ tab)
                NV_ENC_CODEC_HEVC_GUID NV_ENC_CAPS_SUPPORT_SAO) (\<lambda>_.
     andThen (cap_yes_no sdk enc (tab @ ''HEVC_444:'' @ tab)
                NV_ENC_CODEC_HEVC_GUID NV_ENC_CAPS_SUPPORT_YUV444_ENCODE) (\<lambda>_.
     andThen (cap_yes_no sdk enc (tab @ ''HEVC_ME:'' @ tab)
                NV_ENC_CODEC_HEVC_GUID NV_ENC_CAPS_SUPPORT_MEONLY_MODE) (\<lambda>_.
     andThen (cap_WxH sdk enc (tab @ ''HEVC_WxH:'' @ tab) NV_ENC_CODEC_HEVC_GUID) (\<lambda>_.
     andThen (print [Str endl]) (\<lambda>_.
     andThen (call Call_DestroyEncoder (DestroyEncoder sdk enc)) (\<lambda>_.
     ck Call_cuCtxDestroy (cuCtxDestroy sdk cuContext)))))))))))))))))))"

text \<open>The loop \<^verbatim>\<open>for (int iGpu = 0; iGpu < nGpu; iGpu++)\<close>, from the counter it has reached.\<close>

function ShowGpuLoop :: "('e, 'ip, 'px) sdk \<Rightarrow> int \<Rightarrow> int \<Rightarrow> (unit, 'px) step" where
  "ShowGpuLoop sdk nGpu iGpu' =
     (if iGpu' < nGpu
      then andThen (ShowGpuCapability sdk iGpu') (\<lambda>_. ShowGpuLoop sdk nGpu (iGpu' + 1))
      else ret ())"
  by pat_completeness auto
termination
  by (relation "measure (\<lambda>(sdk, nGpu, iGpu'). nat (nGpu - iGpu'))") auto

definition ShowEncoderCapability :: "('e, 'ip, 'px) sdk \<Rightarrow> (unit, 'px) step" where
  "ShowEncoderCapability sdk =
     andThen (ck Call_cuInit (cuInit sdk)) (\<lambda>_.
     andThen (ck Call_cuDeviceGetCount (cuDeviceGetCount sdk)) (\<lambda>nGpu.
     andThen (print [Str ''Encoder Capability'', Str endl, Str endl]) (\<lambda>_.
     ShowGpuLoop sdk nGpu 0)))"

subsection \<open>ShowHelpAndExit and ParseCommandLine\<close>

definition help_options :: "string list" where
  "help_options =
     [''Options:'',
      ''-i               Input file path'',
      ''-o               Output file path'',
      ''-s               Input resolution in this form: WxH'',
      ''-if              Input format: iyuv nv12 yuv444 p010 yuv444p16 bgra bgra10 ayuv abgr abgr10'',
      ''-gpu             Ordinal of GPU to use'',
      ''-outputInVidMem  Set this to 1 to enable output in Video Memory'',
      ''-cuStreamType    Use CU stream for pre and post processing when outputInVidMem is set to 1'',
      ''                 CRC of encoded frames will be computed and dumped to file with suffix '_crc.txt' added'',
      ''                 to file specified by -o option '',
      ''                 0 : both pre and post processing are on NULL CUDA stream'',
      ''                 1 : both pre and post processing are on SAME CUDA stream'',
      ''                 2 : both pre and post processing are on DIFFERENT CUDA stream'']"

definition help_message :: "('e, 'ip, 'px) sdk \<Rightarrow> string option \<Rightarrow> string" where
  "help_message sdk szBadOption =
     (case szBadOption of
        None \<Rightarrow> []
      | Some b \<Rightarrow> ''Error parsing '' @ [CHR 0x22] @ b @ [CHR 0x22] @ endl)
     @ concat (map (\<lambda>l. l @ endl) help_options)
     @ GetHelpMessage sdk @ endl"

definition ShowHelpAndExit :: "('e, 'ip, 'px) sdk \<Rightarrow> string option \<Rightarrow> ('a, 'px) step" where
  "ShowHelpAndExit sdk szBadOption =
     (case szBadOption of
        Some b \<Rightarrow> throw (help_message sdk szBadOption)
      | None \<Rightarrow>
          andThen (print [Str (help_message sdk szBadOption)]) (\<lambda>_.
          andThen (ShowEncoderCapability sdk) (\<lambda>_.
          exit_with 0)))"

text \<open>
  \<^verbatim>\<open>ParseCommandLine\<close>: the loop, then the encoder options built from the collected
  string. The options object is its string.
\<close>

definition ParseCommandLine :: "('e, 'ip, 'px) sdk \<Rightarrow> string list \<Rightarrow> (cli, 'px) step" where
  "ParseCommandLine sdk argv =
     (case ParseArgs (tl argv) cli0 of
        Inl Help \<Rightarrow> ShowHelpAndExit sdk None
      | Inl (BadOption b) \<Rightarrow> ShowHelpAndExit sdk (Some b)
      | Inr c \<Rightarrow>
          andThen (call (Call_NvEncoderInitParam (oss c)) (NvEncoderInitParam sdk (oss c))) (\<lambda>_.
          ret c))"

subsection \<open>InitializeEncoder and EncodeCuda\<close>

definition InitializeEncoder ::
  "('e, 'ip, 'px) sdk \<Rightarrow> 'e \<Rightarrow> string \<Rightarrow> NV_ENC_BUFFER_FORMAT \<Rightarrow> ('e, 'px) step" where
  "InitializeEncoder sdk pEnc encodeCLIOptions eFormat' =
     andThen (call Call_CreateDefaultEncoderParams
                (CreateDefaultEncoderParams sdk pEnc encodeCLIOptions)) (\<lambda>initializeParams.
     andThen (call (Call_SetInitParams eFormat')
                (SetInitParams sdk encodeCLIOptions initializeParams eFormat')) (\<lambda>initializeParams.
     call Call_CreateEncoder (CreateEncoder sdk pEnc initializeParams)))"

definition last_frame :: int where
  "last_frame = 15 * 25"

text \<open>
  The branch \<^verbatim>\<open>i < last_frame\<close> of the loop body. \<^verbatim>\<open>CopyToDeviceFrame\<close> copies the frame
  at \<^verbatim>\<open>srcIn.data\<close> into the input frame of the encoder; \<^verbatim>\<open>EncodeFrame\<close> reads the device
  memory and returns the packets that are ready.
\<close>

definition submit_frame ::
  "('e, 'ip, 'px) sdk \<Rightarrow> nat \<Rightarrow> addr \<Rightarrow> 'e \<Rightarrow> (packet list \<times> 'e, 'px) step" where
  "submit_frame sdk cuContext srcIn_data pEnc =
     andThen (\<lambda>w. (Inr (GetNextInputFrame sdk pEnc), w\<lparr>calls := calls w @ [Call_GetNextInputFrame]\<rparr>))
       (\<lambda>inputPtr.
     andThen (\<lambda>w. call (Call_CopyToDeviceFrame srcIn_data inputPtr)
                     (CopyToDeviceFrame sdk cuContext srcIn_data inputPtr (dev w)) w) (\<lambda>_.
     andThen (\<lambda>w. (Inr (), w\<lparr>dev := (dev w)(inputPtr := dev w srcIn_data)\<rparr>)) (\<lambda>_.
     andThen (\<lambda>w. call Call_EncodeFrame (EncodeFrame sdk pEnc (dev w))
                     (w\<lparr>submitted := submitted w @ [dev w inputPtr]\<rparr>)) (\<lambda>(vPacket, pEnc').
     andThen (\<lambda>w. (Inr (), w\<lparr>emitted := emitted w @ [vPacket]\<rparr>)) (\<lambda>_.
     ret (vPacket, pEnc'))))))"

text \<open>The branch \<^verbatim>\<open>i = last_frame\<close>.\<close>

definition flush_encoder :: "('e, 'ip, 'px) sdk \<Rightarrow> 'e \<Rightarrow> (packet list \<times> 'e, 'px) step" where
  "flush_encoder sdk pEnc =
     andThen (call Call_EndEncode (EndEncode sdk pEnc)) (\<lambda>(vPacket, pEnc').
     andThen (\<lambda>w. (Inr (), w\<lparr>emitted := emitted w @ [vPacket]\<rparr>)) (\<lambda>_.
     ret (vPacket, pEnc')))"

text \<open>
  The inner \<^verbatim>\<open>for\<close> over \<^verbatim>\<open>vPacket\<close>: one \<^verbatim>\<open>fpOut.write\<close> for each packet. A write
  appends its buffer to the stream; the source does not test the state of the stream.
\<close>

fun write_packets :: "packet list \<Rightarrow> 'px world \<Rightarrow> 'px world" where
  "write_packets [] w = w"
| "write_packets (packet # ps) w =
     write_packets ps (w\<lparr>fpOut := fpOut w @ packet, written := written w @ [packet]\<rparr>)"

text \<open>
  The loop \<^verbatim>\<open>for (int i = 0; i <= last_frame; i++)\<close>, from \<open>i\<close> on. \<open>nFrame\<close> is a 32-bit
  \<^verbatim>\<open>int\<close>, \<^verbatim>\<open>(int)vPacket.size()\<close> is added to it in each round.
\<close>

function EncodeLoop ::
  "('e, 'ip, 'px) sdk \<Rightarrow> nat \<Rightarrow> addr \<Rightarrow> int \<Rightarrow> 'e \<times> 32 word \<Rightarrow> ('e \<times> 32 word, 'px) step" where
  "EncodeLoop sdk cuContext srcIn_data i (pEnc, nFrame) =
     (if i \<le> last_frame then
        andThen (if i < last_frame then submit_frame sdk cuContext srcIn_data pEnc
                 else flush_encoder sdk pEnc) (\<lambda>(vPacket, pEnc').
        andThen (\<lambda>w. (Inr (), write_packets vPacket w)) (\<lambda>_.
        EncodeLoop sdk cuContext srcIn_data (i + 1) (pEnc', nFrame + of_nat (length vPacket))))
      else ret (pEnc, nFrame))"
  by pat_completeness auto
termination
  by (relation "measure (\<lambda>(sdk, cuContext, srcIn_data, i, s). nat (last_frame + 1 - i))") auto

text \<open>
  \<^verbatim>\<open>EncodeCuda\<close>. The format is the constant of the first line of the function. The
  accessors \<^verbatim>\<open>GetFrameSize\<close>, \<^verbatim>\<open>GetEncodeWidth\<close> and \<^verbatim>\<open>GetEncodeHeight\<close> have no effect and
  are not logged.
\<close>

definition EncodeCuda ::
  "('e, 'ip, 'px) sdk \<Rightarrow> int \<Rightarrow> int \<Rightarrow> string \<Rightarrow> nat \<Rightarrow> addr \<Rightarrow> (unit, 'px) step" where
  "EncodeCuda sdk nWidth' nHeight' encodeCLIOptions cuContext srcIn_data =
     (let eFormat' = NV_ENC_BUFFER_FORMAT_ABGR in
      andThen (call (Call_NvEncoderCuda nWidth' nHeight' eFormat')
                 (NvEncoderCuda sdk cuContext nWidth' nHeight' eFormat')) (\<lambda>pEnc.
      andThen (InitializeEncoder sdk pEnc encodeCLIOptions eFormat') (\<lambda>pEnc.
      andThen (EncodeLoop sdk cuContext srcIn_data 0 (pEnc, 0)) (\<lambda>(pEnc, nFrame).
      andThen (call Call_DestroyEncoder (DestroyEncoder sdk pEnc)) (\<lambda>_.
      print [Str ''Total frames encoded: '', Num (sint nFrame), Str endl])))))"

subsection \<open>main\<close>

text \<open>The body of the \<^verbatim>\<open>try\<close> block.\<close>

definition main_try :: "('e, 'ip, 'px) sdk \<Rightarrow> string list \<Rightarrow> (unit, 'px) step" where
  "main_try sdk argv =
     andThen (ParseCommandLine sdk argv) (\<lambda>c.
     andThen (call (Call_imread (szInputFileName c)) (imread sdk (szInputFileName c))) (\<lambda>srcImgHost.
     andThen (\<lambda>w. call Call_upload (upload sdk srcImgHost (dev w)) w) (\<lambda>(srcImgDevice, d).
     andThen (\<lambda>w. (Inr (), w\<lparr>dev := d\<rparr>)) (\<lambda>_.
     andThen (\<lambda>w. call Call_cvtColor (cvtColor sdk srcImgDevice (dev w)) w) (\<lambda>(srcImgDevice, d).
     andThen (\<lambda>w. (Inr (), w\<lparr>dev := d\<rparr>)) (\<lambda>_.
     andThen (\<lambda>w. call Call_download (download sdk srcImgDevice (dev w)) w) (\<lambda>_.
     andThen (call (Call_ValidateResolution (cols srcImgHost) (rows srcImgHost))
                (ValidateResolution sdk (cols srcImgHost) (rows srcImgHost))) (\<lambda>_.
     andThen (ck Call_cuInit (cuInit sdk)) (\<lambda>_.
     andThen (ck Call_cuDeviceGetCount (cuDeviceGetCount sdk)) (\<lambda>nGpu.
     if iGpu c < 0 \<or> iGpu c \<ge> nGpu then
       andThen (print [Str ''GPU ordinal out of range. Should be within ['', Num 0, Str '', '',
                       Num (nGpu - 1), Str '']'', Str endl]) (\<lambda>_.
       exit_with 1)
     else
     andThen (ck (Call_cuDeviceGet (iGpu c)) (cuDeviceGet sdk (iGpu c))) (\<lambda>cuDevice.
     andThen (ck Call_cuDeviceGetName (cuDeviceGetName sdk cuDevice)) (\<lambda>szDeviceName.
     andThen (print [Str ''GPU in use: '', Str szDeviceName, Str endl]) (\<lambda>_.
     andThen (ck Call_cuCtxCreate (cuCtxCreate sdk cuDevice)) (\<lambda>cuContext.
     andThen (\<lambda>w. (Inr (), w\<lparr>calls := calls w @ [Call_ofstream (szOutputFileName c)]\<rparr>)) (\<lambda>_.
     if \<not> ofstream_open sdk (szOutputFileName c) then
       throw (''Unable to open output file: '' @ szOutputFileName c @ endl)
     else
     andThen (EncodeCuda sdk (cols srcImgHost) (rows srcImgHost) (oss c) cuContext srcImgDevice) (\<lambda>_.
     print [Str ''Bitstream saved in file '', Str (szOutputFileName c), Str endl]
     ))))))))))))))))"

definition world0 :: "(addr \<Rightarrow> 'px) \<Rightarrow> 'px world" where
  "world0 d = \<lparr>cout = [], dev = d, fpOut = [], calls = [], failures = [],
                emitted = [], written = [], submitted = []\<rparr>"

text \<open>
  \<^verbatim>\<open>main\<close>: the exit status and what the run leaves behind, from the device memory at
  the start and \<^verbatim>\<open>argv\<close>. The handler prints \<^verbatim>\<open>ex.what()\<close> and returns 1.
\<close>

definition main :: "('e, 'ip, 'px) sdk \<Rightarrow> (addr \<Rightarrow> 'px) \<Rightarrow> string list \<Rightarrow> int \<times> 'px world" where
  "main sdk d argv =
     (case main_try sdk argv (world0 d) of
        (Inr _, w) \<Rightarrow> (0, w)
      | (Inl (Throw msg), w) \<Rightarrow> (1, w\<lparr>cout := cout w @ [Str msg]\<rparr>)
      | (Inl (Exit n), w) \<Rightarrow> (n, w))"

subsection \<open>Notions used in the statements\<close>

declare EncodeLoop.simps [simp del]

declare ParseArgs.simps [simp del]

declare ShowGpuLoop.simps [simp del]

text \<open>One round of the loop before the bookkeeping: a submission, or the flush.\<close>

definition loop_body ::
  "('e, 'ip, 'px) sdk \<Rightarrow> nat \<Rightarrow> addr \<Rightarrow> int \<Rightarrow> 'e \<Rightarrow> (packet list \<times> 'e, 'px) step" where
  "loop_body sdk ctx src i e =
     (if i < last_frame then submit_frame sdk ctx src e else flush_encoder sdk e)"

text \<open>The calls of one frame submission into the input frame at \<open>d\<close>.\<close>

definition submission :: "addr \<Rightarrow> addr \<Rightarrow> api_call list" where
  "submission src d = [Call_GetNextInputFrame, Call_CopyToDeviceFrame src d, Call_EncodeFrame]"

text \<open>The calls by which \<^verbatim>\<open>EncodeCuda\<close> creates and initialises the encoder.\<close>

definition setup_calls :: "int \<Rightarrow> int \<Rightarrow> api_call list" where
  "setup_calls nW nH =
     [Call_NvEncoderCuda nW nH NV_ENC_BUFFER_FORMAT_ABGR, Call_CreateDefaultEncoderParams,
      Call_SetInitParams NV_ENC_BUFFER_FORMAT_ABGR, Call_CreateEncoder]"

text \<open>The source pointer of a copy, the sizes and the formats an encoder is opened with.\<close>

fun copy_source :: "api_call \<Rightarrow> addr option" where
  "copy_source (Call_CopyToDeviceFrame s d) = Some s"
| "copy_source _ = None"

fun opened_size :: "api_call \<Rightarrow> (int \<times> int) option" where
  "opened_size (Call_NvEncoderCuda nW nH f) = Some (nW, nH)"
| "opened_size _ = None"

fun opened_format :: "api_call \<Rightarrow> NV_ENC_BUFFER_FORMAT option" where
  "opened_format (Call_NvEncoderCuda nW nH f) = Some f"
| "opened_format (Call_SetInitParams f) = Some f"
| "opened_format _ = None"

text \<open>
  The calls of \<^verbatim>\<open>main\<close> before \<^verbatim>\<open>EncodeCuda\<close>, for the parsed command line and the size
  of the image.
\<close>

definition main_calls :: "cli \<Rightarrow> int \<Rightarrow> int \<Rightarrow> api_call list" where
  "main_calls c nW nH =
     [Call_NvEncoderInitParam (oss c), Call_imread (szInputFileName c), Call_upload,
      Call_cvtColor, Call_download, Call_ValidateResolution nW nH, Call_cuInit,
      Call_cuDeviceGetCount, Call_cuDeviceGet (iGpu c), Call_cuDeviceGetName,
      Call_cuCtxCreate, Call_ofstream (szOutputFileName c)]"

text \<open>Nothing was submitted, returned or written between two states.\<close>

definition untouched :: "'px world \<Rightarrow> 'px world \<Rightarrow> bool" where
  "untouched w w' \<longleftrightarrow> emitted w' = emitted w \<and> written w' = written w \<and> fpOut w' = fpOut w
     \<and> submitted w' = submitted w"

text \<open>
  The calls of \<^verbatim>\<open>ShowEncoderCapability\<close>: driver calls, questions to an encoder object,
  and the creation of an encoder object of 1280 by 720 in NV12.
\<close>

fun probe_call :: "api_call \<Rightarrow> bool" where
  "probe_call Call_cuInit = True"
| "probe_call Call_cuDeviceGetCount = True"
| "probe_call (Call_cuDeviceGet i) = True"
| "probe_call Call_cuDeviceGetName = True"
| "probe_call Call_cuCtxCreate = True"
| "probe_call (Call_NvEncoderCuda nW nH f) = (nW = 1280 \<and> nH = 720 \<and> f = NV_ENC_BUFFER_FORMAT_NV12)"
| "probe_call (Call_GetCapabilityValue g c) = True"
| "probe_call Call_DestroyEncoder = True"
| "probe_call Call_cuCtxDestroy = True"
| "probe_call _ = False"

text \<open>
  What a statement of the help path may do between two states: print, and make calls
  of \<^verbatim>\<open>ShowEncoderCapability\<close>. It fails at most once, at its last call: a failure thrown
  is logged with its message, a failure that ends the process ends it with status 1 and
  its message printed.
\<close>

definition probing :: "'px world \<Rightarrow> abort + 'a \<Rightarrow> 'px world \<Rightarrow> bool" where
  "probing w r w' \<longleftrightarrow>
     untouched w w' \<and> dev w' = dev w
     \<and> (\<exists>cs. calls w' = calls w @ cs \<and> list_all probe_call cs)
     \<and> (\<exists>out. cout w' = cout w @ out)
     \<and> (case r of
          Inr x \<Rightarrow> failures w' = failures w
        | Inl (Throw m) \<Rightarrow> calls w' \<noteq> [] \<and> failures w' = failures w @ [(last (calls w'), m)]
        | Inl (Exit n) \<Rightarrow>
            n = 1 \<and> calls w' \<noteq> []
            \<and> (\<exists>m. failures w' = failures w @ [(last (calls w'), m)] \<and> Str m \<in> set (cout w')))"

definition probes :: "('a, 'px) step \<Rightarrow> bool" where
  "probes m \<longleftrightarrow> (\<forall>w. probing w (fst (m w)) (snd (m w)))"

text \<open>The calls of \<^verbatim>\<open>ShowEncoderCapability\<close> on a machine with one GPU, when none fails.\<close>

definition help_calls :: "api_call list" where
  "help_calls =
     [Call_cuInit, Call_cuDeviceGetCount, Call_cuDeviceGet 0, Call_cuDeviceGetName,
      Call_cuCtxCreate, Call_NvEncoderCuda 1280 720 NV_ENC_BUFFER_FORMAT_NV12,
      Call_GetCapabilityValue NV_ENC_CODEC_H264_GUID NV_ENC_CAPS_SUPPORTED_RATECONTROL_MODES,
      Call_GetCapabilityValue NV_ENC_CODEC_H264_GUID NV_ENC_CAPS_SUPPORT_YUV444_ENCODE,
      Call_GetCapabilityValue NV_ENC_CODEC_H264_GUID NV_ENC_CAPS_SUPPORT_MEONLY_MODE,
      Call_GetCapabilityValue NV_ENC_CODEC_H264_GUID NV_ENC_CAPS_WIDTH_MAX,
      Call_GetCapabilityValue NV_ENC_CODEC_H264_GUID NV_ENC_CAPS_HEIGHT_MAX,
      Call_GetCapabilityValue NV_ENC_CODEC_HEVC_GUID NV_ENC_CAPS_SUPPORTED_RATECONTROL_MODES,
      Call_GetCapabilityValue NV_ENC_CODEC_HEVC_GUID NV_ENC_CAPS_SUPPORT_10BIT_ENCODE,
      Call_GetCapabilityValue NV_ENC_CODEC_HEVC_GUID NV_ENC_CAPS_SUPPORT_LOSSLESS_ENCODE,
      Call_GetCapabilityValue NV_ENC_CODEC_HEVC_GUID NV_ENC_CAPS_SUPPORT_SAO,
      Call_GetCapabilityValue NV_ENC_CODEC_HEVC_GUID NV_ENC_CAPS_SUPPORT_YUV444_ENCODE,
      Call_GetCapabilityValue NV_ENC_CODEC_HEVC_GUID NV_ENC_CAPS_SUPPORT_MEONLY_MODE,
      Call_GetCapabilityValue NV_ENC_CODEC_HEVC_GUID NV_ENC_CAPS_WIDTH_MAX,
      Call_GetCapabilityValue NV_ENC_CODEC_HEVC_GUID NV_ENC_CAPS_HEIGHT_MAX,
      Call_DestroyEncoder, Call_cuCtxDestroy]"

text \<open>A device memory for the stand-in: every buffer holds 0.\<close>

definition dev0 :: "addr \<Rightarrow> nat" where
  "dev0 = (\<lambda>a. 0)"

text \<open>
  A stand-in for the libraries on which the statements are tried: one GPU, every image
  4 by 2, an encoder that holds back the first frame, then returns one packet of one
  byte for each frame, and one more at the flush. An empty input name cannot be read,
  an empty output name cannot be opened. Every capability asked for is 1.
\<close>

definition toy :: "(nat, unit, nat) sdk" where
  "toy = \<lparr>GetHelpMessage = ''-codec'',
          NvEncoderInitParam = (\<lambda>s. Inr ()),
          imread = (\<lambda>f. if f = [] then Inl ''cannot read'' else Inr \<lparr>cols = 4, rows = 2, pixels = 7\<rparr>),
          upload = (\<lambda>m d. Inr (10, d(10 := pixels m))),
          cvtColor = (\<lambda>p d. Inr (11, d(11 := d p + 1))),
          download = (\<lambda>p d. Inr ()),
          ValidateResolution = (\<lambda>w h. if w \<le> 0 \<or> h \<le> 0 then Inl ''bad resolution'' else Inr ()),
          cuInit = Inr (),
          cuDeviceGetCount = Inr 1,
          cuDeviceGet = (\<lambda>i. Inr i),
          cuDeviceGetName = (\<lambda>i. Inr ''gpu''),
          cuCtxCreate = (\<lambda>i. Inr 1),
          ofstream_open = (\<lambda>f. f \<noteq> []),
          NvEncoderCuda = (\<lambda>c w h f. Inr 0),
          CreateDefaultEncoderParams = (\<lambda>e s. Inr ()),
          SetInitParams = (\<lambda>s p f. Inr p),
          CreateEncoder = (\<lambda>e p. Inr e),
          GetNextInputFrame = (\<lambda>e. 100 + e mod 4),
          CopyToDeviceFrame = (\<lambda>c s t d. Inr ()),
          EncodeFrame = (\<lambda>e d. Inr (if e = 0 then [] else [[of_nat e]], Suc e)),
          EndEncode = (\<lambda>e. Inr ([[255]], e)),
          DestroyEncoder = (\<lambda>e. Inr ()),
          GetCapabilityValue = (\<lambda>e g c. Inr 1),
          cuCtxDestroy = (\<lambda>c. Inr ())\<rparr>"

section \<open>The encode loop\<close>

subsection \<open>One round\<close>

lemma andThen_apply:
  "andThen m f w = (case m w of (Inl a, w') \<Rightarrow> (Inl a, w') | (Inr x, w') \<Rightarrow> f x w')"
  by (simp add: andThen_def)

lemma andThen_Inr: "m w = (Inr x, w1) \<Longrightarrow> andThen m f w = f x w1"
  by (simp add: andThen_def)

lemma andThen_Inl: "m w = (Inl a, w1) \<Longrightarrow> andThen m f w = (Inl a, w1)"
  by (simp add: andThen_def)

lemma write_packets_fields [simp]:
  "fpOut (write_packets vp w) = fpOut w @ concat vp"
  "written (write_packets vp w) = written w @ vp"
  "emitted (write_packets vp w) = emitted w"
  "calls (write_packets vp w) = calls w"
  "failures (write_packets vp w) = failures w"
  "cout (write_packets vp w) = cout w"
  "dev (write_packets vp w) = dev w"
  "submitted (write_packets vp w) = submitted w"
  by (induction vp arbitrary: w) simp_all


lemma submit_frame_Inr:
  assumes "submit_frame sdk ctx src e w = (Inr (vp, e'), w1)"
  shows "calls w1 = calls w @ [Call_GetNextInputFrame, Call_CopyToDeviceFrame src (GetNextInputFrame sdk e), Call_EncodeFrame]"
    and "emitted w1 = emitted w @ [vp]"
    and "submitted w1 = submitted w @ [dev w src]"
    and "dev w1 = (dev w)(GetNextInputFrame sdk e := dev w src)"
    and "fpOut w1 = fpOut w" and "written w1 = written w" and "cout w1 = cout w"
    and "failures w1 = failures w"
  using assms
  by (auto simp: submit_frame_def andThen_def call_def ret_def split: sum.splits prod.splits)

lemma submit_frame_Inl:
  assumes "submit_frame sdk ctx src e w = (Inl a, w1)"
  shows "calls w1 = calls w @ [Call_GetNextInputFrame, Call_CopyToDeviceFrame src (GetNextInputFrame sdk e)]
         \<or> calls w1 = calls w @ [Call_GetNextInputFrame, Call_CopyToDeviceFrame src (GetNextInputFrame sdk e), Call_EncodeFrame]"
    and "emitted w1 = emitted w"
    and "\<exists>k \<le> 1. submitted w1 = submitted w @ replicate k (dev w src)"
    and "dev w1 src = dev w src"
    and "fpOut w1 = fpOut w" and "written w1 = written w" and "cout w1 = cout w"
    and "\<exists>m. a = Throw m \<and> failures w1 = failures w @ [(last (calls w1), m)]"
  using assms
  by (auto simp: submit_frame_def andThen_def call_def ret_def split: sum.splits prod.splits)

lemma flush_encoder_Inr:
  assumes "flush_encoder sdk e w = (Inr (vp, e'), w1)"
  shows "calls w1 = calls w @ [Call_EndEncode]"
    and "emitted w1 = emitted w @ [vp]"
    and "submitted w1 = submitted w"
    and "dev w1 = dev w"
    and "fpOut w1 = fpOut w" and "written w1 = written w" and "cout w1 = cout w"
    and "failures w1 = failures w"
  using assms
  by (auto simp: flush_encoder_def andThen_def call_def ret_def split: sum.splits prod.splits)

lemma flush_encoder_Inl:
  assumes "flush_encoder sdk e w = (Inl a, w1)"
  shows "calls w1 = calls w @ [Call_EndEncode]"
    and "emitted w1 = emitted w"
    and "submitted w1 = submitted w"
    and "dev w1 = dev w"
    and "fpOut w1 = fpOut w" and "written w1 = written w" and "cout w1 = cout w"
    and "\<exists>m. a = Throw m \<and> failures w1 = failures w @ [(Call_EndEncode, m)]"
  using assms
  by (auto simp: flush_encoder_def andThen_def call_def ret_def split: sum.splits prod.splits)

lemma loop_body_Inr:
  assumes "loop_body sdk ctx src i e w = (Inr (vp, e'), w1)"
  shows "emitted w1 = emitted w @ [vp]"
    and "fpOut w1 = fpOut w" and "written w1 = written w" and "cout w1 = cout w"
    and "failures w1 = failures w"
    and "dev w1 src = dev w src"
    and "submitted w1 = submitted w @ (if i < last_frame then [dev w src] else [])"
    and "calls w1 = calls w @ (if i < last_frame
           then [Call_GetNextInputFrame, Call_CopyToDeviceFrame src (GetNextInputFrame sdk e), Call_EncodeFrame]
           else [Call_EndEncode])"
  using assms
  by (auto simp: loop_body_def split: if_splits dest: submit_frame_Inr flush_encoder_Inr)

lemma loop_body_Inl:
  assumes "loop_body sdk ctx src i e w = (Inl a, w1)"
  shows "emitted w1 = emitted w"
    and "fpOut w1 = fpOut w" and "written w1 = written w" and "cout w1 = cout w"
    and "\<exists>m. a = Throw m \<and> failures w1 = failures w @ [(last (calls w1), m)]"
    and "dev w1 src = dev w src"
    and "\<exists>k \<le> 1. submitted w1 = submitted w @ replicate k (dev w src)"
    and "if i < last_frame
         then calls w1 = calls w @ [Call_GetNextInputFrame, Call_CopyToDeviceFrame src (GetNextInputFrame sdk e)]
            \<or> calls w1 = calls w @ [Call_GetNextInputFrame, Call_CopyToDeviceFrame src (GetNextInputFrame sdk e), Call_EncodeFrame]
         else calls w1 = calls w @ [Call_EndEncode]"
proof -
  show "emitted w1 = emitted w" "fpOut w1 = fpOut w" "written w1 = written w" "cout w1 = cout w"
    "dev w1 src = dev w src"
    using assms
    by (auto simp: loop_body_def split: if_splits dest: submit_frame_Inl(2-7) flush_encoder_Inl(1-7))
  show "\<exists>m. a = Throw m \<and> failures w1 = failures w @ [(last (calls w1), m)]"
    using assms submit_frame_Inl(8)[of sdk ctx src e w a w1] flush_encoder_Inl(1,8)[of sdk e w a w1]
    by (auto simp: loop_body_def split: if_splits)
  show "\<exists>k \<le> 1. submitted w1 = submitted w @ replicate k (dev w src)"
    using assms submit_frame_Inl(3)[of sdk ctx src e w a w1] flush_encoder_Inl(3)[of sdk e w a w1]
    by (cases "i < last_frame") (auto simp: loop_body_def intro: exI[of _ 0])
  show "if i < last_frame
         then calls w1 = calls w @ [Call_GetNextInputFrame, Call_CopyToDeviceFrame src (GetNextInputFrame sdk e)]
            \<or> calls w1 = calls w @ [Call_GetNextInputFrame, Call_CopyToDeviceFrame src (GetNextInputFrame sdk e), Call_EncodeFrame]
         else calls w1 = calls w @ [Call_EndEncode]"
    using assms submit_frame_Inl(1)[of sdk ctx src e w a w1] flush_encoder_Inl(1)[of sdk e w a w1]
    by (auto simp: loop_body_def split: if_splits)
qed

lemma loop_next:
  assumes "i \<le> last_frame" and "loop_body sdk ctx src i e w = (Inr (vp, e'), w1)"
  shows "EncodeLoop sdk ctx src i (e, n) w =
         EncodeLoop sdk ctx src (i + 1) (e', n + of_nat (length vp)) (write_packets vp w1)"
  using assms by (simp add: EncodeLoop.simps[of sdk ctx src i] loop_body_def andThen_def split: if_splits)

lemma loop_stop:
  assumes "i \<le> last_frame" and "loop_body sdk ctx src i e w = (Inl a, w1)"
  shows "EncodeLoop sdk ctx src i (e, n) w = (Inl a, w1)"
  using assms by (simp add: EncodeLoop.simps[of sdk ctx src i] loop_body_def andThen_def split: if_splits)

lemma loop_done:
  assumes "\<not> i \<le> last_frame"
  shows "EncodeLoop sdk ctx src i (e, n) w = (Inr (e, n), w)"
  using assms by (simp add: EncodeLoop.simps[of sdk ctx src i] ret_def)

lemma loop_cases:
  assumes "EncodeLoop sdk ctx src i (e, n) w = (r, w')"
  obtains (finished) "\<not> i \<le> last_frame" "r = Inr (e, n)" "w' = w"
  | (stopped) a where "i \<le> last_frame" "loop_body sdk ctx src i e w = (Inl a, w')" "r = Inl a"
  | (iterate) vp e' w1 where "i \<le> last_frame" "loop_body sdk ctx src i e w = (Inr (vp, e'), w1)"
      "EncodeLoop sdk ctx src (i + 1) (e', n + of_nat (length vp)) (write_packets vp w1) = (r, w')"
proof (cases "i \<le> last_frame")
  case False
  with assms that(1) show ?thesis by (simp add: loop_done)
next
  case True
  obtain b w1 where b: "loop_body sdk ctx src i e w = (b, w1)" by (cases "loop_body sdk ctx src i e w")
  show ?thesis
  proof (cases b)
    case (Inl a)
    with True b assms that(2) show ?thesis by (simp add: loop_stop)
  next
    case (Inr p)
    obtain vp e' where "p = (vp, e')" by (cases p)
    with Inr True b assms that(3) show ?thesis by (simp add: loop_next)
  qed
qed

lemma loop_written:
  "EncodeLoop sdk ctx src i (e, n) w = (r, w') \<Longrightarrow>
   \<exists>new. emitted w' = emitted w @ new \<and> written w' = written w @ concat new
        \<and> fpOut w' = fpOut w @ concat (concat new)"
proof (induction sdk ctx src i "(e, n)" arbitrary: e n w rule: EncodeLoop.induct)
  case (1 sdk ctx src i e n)
  from "1.prems" show ?case
  proof (cases rule: loop_cases)
    case finished
    then show ?thesis by simp
  next
    case (stopped a)
    then show ?thesis by (simp add: loop_body_Inl)
  next
    case (iterate vp e' w1)
    from "1.hyps"[OF iterate(1) iterate(3)] obtain new where
      new: "emitted w' = emitted (write_packets vp w1) @ new"
        "written w' = written (write_packets vp w1) @ concat new"
        "fpOut w' = fpOut (write_packets vp w1) @ concat (concat new)"
      by blast
    with loop_body_Inr(1-3)[OF iterate(2)] show ?thesis
      by (intro exI[of _ "vp # new"]) simp
  qed
qed

lemma nat_last_frame_Suc: "i < last_frame \<Longrightarrow> nat (last_frame - i) = Suc (nat (last_frame - (i + 1)))"
  by simp

lemma loop_calls_ok:
  "EncodeLoop sdk ctx src i (e, n) w = (Inr x, w') \<Longrightarrow> i \<le> last_frame \<Longrightarrow>
   \<exists>slots. length slots = nat (last_frame - i)
     \<and> calls w' = calls w @ concat (map (submission src) slots) @ [Call_EndEncode]"
proof (induction sdk ctx src i "(e, n)" arbitrary: e n w rule: EncodeLoop.induct)
  case (1 sdk ctx src i e n)
  from "1.prems"(1) show ?case
  proof (cases rule: loop_cases)
    case finished
    with "1.prems"(2) show ?thesis by simp
  next
    case (stopped a)
    then show ?thesis by simp
  next
    case (iterate vp e' w1)
    show ?thesis
    proof (cases "i < last_frame")
      case True
      then have "i + 1 \<le> last_frame" by simp
      from "1.hyps"[OF iterate(1) iterate(3) this] obtain slots where
        slots: "length slots = nat (last_frame - (i + 1))"
          "calls w' = calls (write_packets vp w1) @ concat (map (submission src) slots) @ [Call_EndEncode]"
        by blast
      from loop_body_Inr(8)[OF iterate(2)] True
      have "calls w1 = calls w @ submission src (GetNextInputFrame sdk e)"
        by (simp add: submission_def)
      with slots True show ?thesis
        by (intro exI[of _ "GetNextInputFrame sdk e # slots"]) (simp add: nat_last_frame_Suc)
    next
      case False
      with iterate(1) have eq: "i = last_frame" by simp
      then have "\<not> i + 1 \<le> last_frame" by simp
      with iterate(3) have "w' = write_packets vp w1" by (simp add: loop_done)
      with loop_body_Inr(8)[OF iterate(2)] eq show ?thesis
        by (intro exI[of _ "[]"]) simp
    qed
  qed
qed

lemma loop_dev:
  "EncodeLoop sdk ctx src i (e, n) w = (r, w') \<Longrightarrow> i \<le> last_frame \<Longrightarrow>
   dev w' src = dev w src \<and> cout w' = cout w
   \<and> (\<exists>k \<le> nat (last_frame - i). submitted w' = submitted w @ replicate k (dev w src)
         \<and> ((\<exists>x. r = Inr x) \<longrightarrow> k = nat (last_frame - i)))"
proof (induction sdk ctx src i "(e, n)" arbitrary: e n w rule: EncodeLoop.induct)
  case (1 sdk ctx src i e n)
  from "1.prems"(1) show ?case
  proof (cases rule: loop_cases)
    case finished
    with "1.prems"(2) show ?thesis by simp
  next
    case (stopped a)
    from loop_body_Inl(7)[OF stopped(2)] obtain k where
      k: "k \<le> 1" "submitted w' = submitted w @ replicate k (dev w src)" by blast
    show ?thesis
    proof (cases "i < last_frame")
      case True
      with k stopped(3) loop_body_Inl(4,6)[OF stopped(2)] show ?thesis
        by (auto intro!: exI[of _ k])
    next
      case False
      from False stopped(2) have "flush_encoder sdk e w = (Inl a, w')"
        by (simp add: loop_body_def)
      from flush_encoder_Inl(3)[OF this] stopped(3) loop_body_Inl(4,6)[OF stopped(2)] show ?thesis
        by (auto intro!: exI[of _ 0])
    qed
  next
    case (iterate vp e' w1)
    show ?thesis
    proof (cases "i < last_frame")
      case True
      then have "i + 1 \<le> last_frame" by simp
      from "1.hyps"[OF iterate(1) iterate(3) this] obtain k where
        k: "dev w' src = dev (write_packets vp w1) src" "cout w' = cout (write_packets vp w1)"
          "k \<le> nat (last_frame - (i + 1))"
          "submitted w' = submitted (write_packets vp w1) @ replicate k (dev (write_packets vp w1) src)"
          "(\<exists>x. r = Inr x) \<longrightarrow> k = nat (last_frame - (i + 1))"
        by blast
      with loop_body_Inr(4,6,7)[OF iterate(2)] True show ?thesis
        by (intro conjI exI[of _ "Suc k"]) (simp_all add: nat_last_frame_Suc)
    next
      case False
      with iterate(1) have eq: "i = last_frame" by simp
      then have "\<not> i + 1 \<le> last_frame" by simp
      with iterate(3) have "w' = write_packets vp w1" by (simp add: loop_done)
      with loop_body_Inr(4,6,7)[OF iterate(2)] eq show ?thesis
        by simp
    qed
  qed
qed

lemma loop_failures:
  "EncodeLoop sdk ctx src i (e, n) w = (r, w') \<Longrightarrow>
   (case r of
      Inr x \<Rightarrow> failures w' = failures w
    | Inl a \<Rightarrow> \<exists>m. a = Throw m \<and> calls w' \<noteq> [] \<and> failures w' = failures w @ [(last (calls w'), m)])"
proof (induction sdk ctx src i "(e, n)" arbitrary: e n w rule: EncodeLoop.induct)
  case (1 sdk ctx src i e n)
  from "1.prems"(1) show ?case
  proof (cases rule: loop_cases)
    case finished
    then show ?thesis by simp
  next
    case (stopped a)
    from loop_body_Inl(8)[OF stopped(2)] have "calls w' \<noteq> []"
      by (auto split: if_splits)
    with loop_body_Inl(5)[OF stopped(2)] stopped(3) show ?thesis by auto
  next
    case (iterate vp e' w1)
    from "1.hyps"[OF iterate(1) iterate(3)] loop_body_Inr(5)[OF iterate(2)]
    show ?thesis by (simp split: sum.splits)
  qed
qed

lemma sint_count: "L < 2 ^ 31 \<Longrightarrow> sint (of_nat L :: 32 word) = int L"
proof -
  assume "L < 2 ^ 31"
  then have "int L < 2 ^ 31" by (metis of_nat_less_iff of_nat_numeral of_nat_power)
  then show ?thesis
    by (simp add: signed_of_nat signed_take_bit_int_eq_self)
qed

lemma submit_frame_result:
  assumes "submit_frame sdk ctx src e w = (Inr (vp, e'), w1)"
  shows "\<exists>d. EncodeFrame sdk e d = Inr (vp, e')"
  using assms
  by (auto simp: submit_frame_def andThen_def call_def ret_def split: sum.splits prod.splits)

lemma flush_encoder_result:
  assumes "flush_encoder sdk e w = (Inr (vp, e'), w1)"
  shows "EndEncode sdk e = Inr (vp, e')"
  using assms
  by (auto simp: flush_encoder_def andThen_def call_def ret_def split: sum.splits prod.splits)

lemma loop_emitted:
  "EncodeLoop sdk ctx src i (e, n) w = (Inr (e', n'), w') \<Longrightarrow> i \<le> last_frame \<Longrightarrow>
   \<exists>fs tail. emitted w' = emitted w @ fs @ [tail] \<and> length fs = nat (last_frame - i)
        \<and> n' = n + of_nat (length (concat fs) + length tail)
        \<and> (\<forall>v \<in> set fs. \<exists>e d e'. EncodeFrame sdk e d = Inr (v, e'))
        \<and> (\<exists>e e'. EndEncode sdk e = Inr (tail, e'))"
proof (induction sdk ctx src i "(e, n)" arbitrary: e n w rule: EncodeLoop.induct)
  case (1 sdk ctx src i e n)
  from "1.prems"(1) show ?case
  proof (cases rule: loop_cases)
    case finished
    with "1.prems"(2) show ?thesis by simp
  next
    case (stopped a)
    then show ?thesis by simp
  next
    case (iterate vp e1 w1)
    show ?thesis
    proof (cases "i < last_frame")
      case True
      then have "i + 1 \<le> last_frame" by simp
      from "1.hyps"[OF iterate(1) iterate(3) this] obtain fs tail where
        fs: "emitted w' = emitted (write_packets vp w1) @ fs @ [tail]"
          "length fs = nat (last_frame - (i + 1))"
          "n' = n + of_nat (length vp) + of_nat (length (concat fs) + length tail)"
          "\<forall>v \<in> set fs. \<exists>e d e'. EncodeFrame sdk e d = Inr (v, e')"
          "\<exists>e e'. EndEncode sdk e = Inr (tail, e')"
        by blast
      from iterate(2) True have "\<exists>d. EncodeFrame sdk e d = Inr (vp, e1)"
        by (simp add: loop_body_def submit_frame_result)
      with fs loop_body_Inr(1)[OF iterate(2)] True show ?thesis
        by (intro exI[of _ "vp # fs"] exI[of _ tail]) (auto simp: nat_last_frame_Suc)
    next
      case False
      with iterate(1) have eq: "i = last_frame" by simp
      then have "\<not> i + 1 \<le> last_frame" by simp
      with iterate(3) have "w' = write_packets vp w1" "n' = n + of_nat (length vp)"
        by (simp_all add: loop_done)
      moreover from iterate(2) False have "EndEncode sdk e = Inr (vp, e1)"
        by (simp add: loop_body_def flush_encoder_result)
      ultimately show ?thesis using loop_body_Inr(1)[OF iterate(2)] eq
        by (intro exI[of _ "[]"] exI[of _ vp]) auto
    qed
  qed
qed

lemma last_frame_val: "nat last_frame = 375"
  by (simp add: last_frame_def)

lemma zero_le_last_frame: "0 \<le> last_frame"
  by (simp add: last_frame_def)

lemma map_filter_append: "List.map_filter f (xs @ ys) = List.map_filter f xs @ List.map_filter f ys"
  by (induction xs) (simp_all add: map_filter_simps split: option.splits)

lemma copy_source_submissions:
  "List.map_filter copy_source (concat (map (submission src) slots)) = replicate (length slots) src"
  by (induction slots) (simp_all add: map_filter_simps map_filter_append submission_def)

lemma copy_source_full:
  "List.map_filter copy_source (setup_calls nW nH @ concat (map (submission src) slots)
       @ [Call_EndEncode, Call_DestroyEncoder]) = replicate (length slots) src"
  by (simp add: map_filter_append copy_source_submissions) (simp add: map_filter_simps setup_calls_def)

lemma copy_source_prefix:
  assumes "prefix xs (setup_calls nW nH @ concat (map (submission src) slots)
       @ [Call_EndEncode, Call_DestroyEncoder])"
  shows "\<exists>k \<le> length slots. List.map_filter copy_source xs = replicate k src"
proof -
  from assms obtain zs where "setup_calls nW nH @ concat (map (submission src) slots)
       @ [Call_EndEncode, Call_DestroyEncoder] = xs @ zs"
    by (auto simp: prefix_def)
  then have "List.map_filter copy_source (setup_calls nW nH @ concat (map (submission src) slots)
       @ [Call_EndEncode, Call_DestroyEncoder])
      = List.map_filter copy_source xs @ List.map_filter copy_source zs"
    by (simp add: map_filter_append)
  then have "replicate (length slots) src = List.map_filter copy_source xs @ List.map_filter copy_source zs"
    by (simp only: copy_source_full)
  then show ?thesis
    by (metis append_eq_conv_conj length_replicate min.cobounded2 take_replicate length_take)
qed

lemma loop_calls_grow:
  "EncodeLoop sdk ctx src i (e, n) w = (r, w') \<Longrightarrow> i \<le> last_frame \<Longrightarrow>
   \<exists>slots cs. length slots = nat (last_frame - i) \<and> calls w' = calls w @ cs
     \<and> prefix cs (concat (map (submission src) slots) @ [Call_EndEncode])"
proof (induction sdk ctx src i "(e, n)" arbitrary: e n w rule: EncodeLoop.induct)
  case (1 sdk ctx src i e n)
  from "1.prems"(1) show ?case
  proof (cases rule: loop_cases)
    case finished
    with "1.prems"(2) show ?thesis by simp
  next
    case (stopped a)
    show ?thesis
    proof (cases "i < last_frame")
      case True
      let ?d = "GetNextInputFrame sdk e"
      let ?slots = "?d # replicate (nat (last_frame - (i + 1))) 0"
      from loop_body_Inl(8)[OF stopped(2)] True
      obtain cs where cs: "calls w' = calls w @ cs" "prefix cs (submission src ?d)"
        by (auto simp: submission_def)
      from cs(2) have "prefix cs (submission src ?d
          @ concat (map (submission src) (replicate (nat (last_frame - (i + 1))) 0)) @ [Call_EndEncode])"
        by (rule prefix_prefix)
      then have "prefix cs (concat (map (submission src) ?slots) @ [Call_EndEncode])"
        by simp
      with True cs(1) show ?thesis
        by (intro exI[of _ ?slots] exI[of _ cs]) (simp add: nat_last_frame_Suc)
    next
      case False
      with loop_body_Inl(8)[OF stopped(2)] stopped(1) show ?thesis
        by (intro exI[of _ "[]"] exI[of _ "[Call_EndEncode]"]) simp
    qed
  next
    case (iterate vp e' w1)
    show ?thesis
    proof (cases "i < last_frame")
      case True
      then have "i + 1 \<le> last_frame" by simp
      from "1.hyps"[OF iterate(1) iterate(3) this] obtain slots cs where
        slots: "length slots = nat (last_frame - (i + 1))"
          "calls w' = calls (write_packets vp w1) @ cs"
          "prefix cs (concat (map (submission src) slots) @ [Call_EndEncode])"
        by blast
      from loop_body_Inr(8)[OF iterate(2)] True
      have "calls w1 = calls w @ submission src (GetNextInputFrame sdk e)"
        by (simp add: submission_def)
      with slots True show ?thesis
        by (intro exI[of _ "GetNextInputFrame sdk e # slots"]
            exI[of _ "submission src (GetNextInputFrame sdk e) @ cs"]) (simp add: nat_last_frame_Suc)
    next
      case False
      with iterate(1) have eq: "i = last_frame" by simp
      then have "\<not> i + 1 \<le> last_frame" by simp
      with iterate(3) have "w' = write_packets vp w1" by (simp add: loop_done)
      with loop_body_Inr(8)[OF iterate(2)] eq show ?thesis
        by (intro exI[of _ "[]"] exI[of _ "[Call_EndEncode]"]) simp
    qed
  qed
qed

subsection \<open>EncodeCuda as a whole\<close>

lemma EncodeCuda_cases:
  assumes "EncodeCuda sdk nW nH opts ctx src w = (r, w')"
  obtains
    (setup_failed) m k where "r = Inl (Throw m)" "k < 4"
      "w' = w\<lparr>calls := calls w @ take (Suc k) (setup_calls nW nH),
              failures := failures w @ [(setup_calls nW nH ! k, m)]\<rparr>"
  | (loop_failed) e0 a where
      "EncodeLoop sdk ctx src 0 (e0, 0) (w\<lparr>calls := calls w @ setup_calls nW nH\<rparr>) = (Inl a, w')"
      "r = Inl a"
  | (destroy_failed) e0 e' n' w2 m where
      "EncodeLoop sdk ctx src 0 (e0, 0) (w\<lparr>calls := calls w @ setup_calls nW nH\<rparr>) = (Inr (e', n'), w2)"
      "r = Inl (Throw m)"
      "w' = w2\<lparr>calls := calls w2 @ [Call_DestroyEncoder],
               failures := failures w2 @ [(Call_DestroyEncoder, m)]\<rparr>"
  | (completed) e0 e' n' w2 where
      "EncodeLoop sdk ctx src 0 (e0, 0) (w\<lparr>calls := calls w @ setup_calls nW nH\<rparr>) = (Inr (e', n'), w2)"
      "r = Inr ()"
      "w' = w2\<lparr>calls := calls w2 @ [Call_DestroyEncoder],
               cout := cout w2 @ [Str ''Total frames encoded: '', Num (sint n'), Str endl]\<rparr>"
proof (cases "NvEncoderCuda sdk ctx nW nH NV_ENC_BUFFER_FORMAT_ABGR")
  case (Inl m)
  with assms have "r = Inl (Throw m)"
    "w' = w\<lparr>calls := calls w @ take (Suc 0) (setup_calls nW nH),
            failures := failures w @ [(setup_calls nW nH ! 0, m)]\<rparr>"
    by (auto simp: EncodeCuda_def andThen_def call_def setup_calls_def)
  then show ?thesis using setup_failed[of m 0] by simp
next
  case e: (Inr e)
  show ?thesis
  proof (cases "CreateDefaultEncoderParams sdk e opts")
    case (Inl m)
    with e assms have "r = Inl (Throw m)"
      "w' = w\<lparr>calls := calls w @ take (Suc 1) (setup_calls nW nH),
              failures := failures w @ [(setup_calls nW nH ! 1, m)]\<rparr>"
      by (auto simp: EncodeCuda_def InitializeEncoder_def andThen_def call_def setup_calls_def)
    then show ?thesis using setup_failed[of m 1] by simp
  next
    case p: (Inr p)
    show ?thesis
    proof (cases "SetInitParams sdk opts p NV_ENC_BUFFER_FORMAT_ABGR")
      case (Inl m)
      with e p assms have "r = Inl (Throw m)"
        "w' = w\<lparr>calls := calls w @ take (Suc 2) (setup_calls nW nH),
                failures := failures w @ [(setup_calls nW nH ! 2, m)]\<rparr>"
        by (auto simp: EncodeCuda_def InitializeEncoder_def andThen_def call_def setup_calls_def
            numeral_2_eq_2)
      then show ?thesis using setup_failed[of m 2] by simp
    next
      case p': (Inr p')
      show ?thesis
      proof (cases "CreateEncoder sdk e p'")
        case (Inl m)
        with e p p' assms have "r = Inl (Throw m)"
          "w' = w\<lparr>calls := calls w @ take (Suc 3) (setup_calls nW nH),
                  failures := failures w @ [(setup_calls nW nH ! 3, m)]\<rparr>"
          by (auto simp: EncodeCuda_def InitializeEncoder_def andThen_def call_def setup_calls_def
              numeral_3_eq_3)
        then show ?thesis using setup_failed[of m 3] by simp
      next
        case e0: (Inr e0)
        let ?w0 = "w\<lparr>calls := calls w @ setup_calls nW nH\<rparr>"
        from e p p' e0 assms have run:
          "andThen (EncodeLoop sdk ctx src 0 (e0, 0)) (\<lambda>(pEnc, nFrame).
             andThen (call Call_DestroyEncoder (DestroyEncoder sdk pEnc)) (\<lambda>_.
             print [Str ''Total frames encoded: '', Num (sint nFrame), Str endl])) ?w0 = (r, w')"
          by (simp add: EncodeCuda_def InitializeEncoder_def andThen_def call_def setup_calls_def)
        obtain rl w2 where l: "EncodeLoop sdk ctx src 0 (e0, 0) ?w0 = (rl, w2)"
          by (cases "EncodeLoop sdk ctx src 0 (e0, 0) ?w0")
        show ?thesis
        proof (cases rl)
          case (Inl a)
          with run l loop_failed[of e0 a] show ?thesis by (simp add: andThen_def)
        next
          case (Inr x)
          obtain e' n' where x: "x = (e', n')" by (cases x)
          show ?thesis
          proof (cases "DestroyEncoder sdk e'")
            case (Inl m)
            with run l Inr x destroy_failed[of e0 e' n' w2 m] show ?thesis
              by (simp add: andThen_def call_def)
          next
            case d: (Inr u)
            with run l Inr x completed[of e0 e' n' w2] show ?thesis
              by (simp add: andThen_def call_def print_def)
          qed
        qed
      qed
    qed
  qed
qed


lemma EncodeCuda_calls_ok:
  assumes "EncodeCuda sdk nW nH opts ctx src w = (Inr u, w')"
  shows "\<exists>slots. length slots = 375
     \<and> calls w' = calls w @ setup_calls nW nH @ concat (map (submission src) slots)
                  @ [Call_EndEncode, Call_DestroyEncoder]"
  using assms
proof (cases rule: EncodeCuda_cases)
  case (completed e0 e' n' w2)
  from loop_calls_ok[OF completed(1) zero_le_last_frame] completed(3) show ?thesis
    by (auto simp: last_frame_val)
qed simp_all

lemma EncodeCuda_calls_any:
  assumes "EncodeCuda sdk nW nH opts ctx src w = (r, w')"
  shows "\<exists>slots cs. length slots = 375 \<and> calls w' = calls w @ cs
     \<and> prefix cs (setup_calls nW nH @ concat (map (submission src) slots)
                  @ [Call_EndEncode, Call_DestroyEncoder])"
  using assms
proof (cases rule: EncodeCuda_cases)
  case (setup_failed m k)
  have "prefix (take (Suc k) (setup_calls nW nH)) (setup_calls nW nH)"
    by (rule take_is_prefix)
  then have "prefix (take (Suc k) (setup_calls nW nH))
      (setup_calls nW nH @ concat (map (submission src) (replicate 375 0)) @ [Call_EndEncode, Call_DestroyEncoder])"
    by (rule prefix_prefix)
  with setup_failed(3) show ?thesis
    by (intro exI[of _ "replicate 375 0"] exI[of _ "take (Suc k) (setup_calls nW nH)"]) simp
next
  case (loop_failed e0 a)
  from loop_calls_grow[OF loop_failed(1) zero_le_last_frame] obtain slots cs where
    slots: "length slots = 375" "calls w' = (calls w @ setup_calls nW nH) @ cs"
      "prefix cs (concat (map (submission src) slots) @ [Call_EndEncode])"
    by (auto simp: last_frame_val)
  from slots(3) have "prefix cs ((concat (map (submission src) slots) @ [Call_EndEncode]) @ [Call_DestroyEncoder])"
    by (rule prefix_prefix)
  then have "prefix (setup_calls nW nH @ cs) (setup_calls nW nH @ concat (map (submission src) slots)
      @ [Call_EndEncode, Call_DestroyEncoder])"
    by simp
  with slots(1,2) show ?thesis
    by (intro exI[of _ slots] exI[of _ "setup_calls nW nH @ cs"]) simp
next
  case (destroy_failed e0 e' n' w2 m)
  from loop_calls_ok[OF destroy_failed(1) zero_le_last_frame] destroy_failed(3) show ?thesis
    by (auto simp: last_frame_val)
next
  case (completed e0 e' n' w2)
  from loop_calls_ok[OF completed(1) zero_le_last_frame] completed(3) show ?thesis
    by (auto simp: last_frame_val)
qed


lemma EncodeCuda_count:
  assumes "EncodeCuda sdk nW nH opts ctx src w = (Inr u, w')"
  shows "\<exists>fs tail. emitted w' = emitted w @ fs @ [tail] \<and> length fs = 375
      \<and> (\<forall>v \<in> set fs. \<exists>e d e'. EncodeFrame sdk e d = Inr (v, e'))
      \<and> (\<exists>e e'. EndEncode sdk e = Inr (tail, e'))
      \<and> written w' = written w @ concat fs @ tail
      \<and> fpOut w' = fpOut w @ concat (concat fs @ tail)
      \<and> cout w' = cout w @ [Str ''Total frames encoded: '',
                             Num (sint (of_nat (length (concat fs) + length tail) :: 32 word)), Str endl]"
  using assms
proof (cases rule: EncodeCuda_cases)
  case (completed e0 e' n' w2)
  let ?w0 = "w\<lparr>calls := calls w @ setup_calls nW nH\<rparr>"
  from loop_emitted[OF completed(1) zero_le_last_frame] obtain fs tail where
    fs: "emitted w2 = emitted ?w0 @ fs @ [tail]" "length fs = 375"
      "n' = of_nat (length (concat fs) + length tail)"
      "\<forall>v \<in> set fs. \<exists>e d e'. EncodeFrame sdk e d = Inr (v, e')"
      "\<exists>e e'. EndEncode sdk e = Inr (tail, e')"
    by (auto simp: last_frame_val)
  from loop_written[OF completed(1)] obtain new where
    new: "emitted w2 = emitted ?w0 @ new" "written w2 = written ?w0 @ concat new"
      "fpOut w2 = fpOut ?w0 @ concat (concat new)"
    by blast
  from fs(1) new(1) have "new = fs @ [tail]" by simp
  with new have "written w2 = written w @ concat fs @ tail"
    "fpOut w2 = fpOut w @ concat (concat fs @ tail)" by simp_all
  moreover from loop_dev[OF completed(1) zero_le_last_frame] have "cout w2 = cout w" by simp
  ultimately show ?thesis using fs completed(3)
    by (intro exI[of _ fs] exI[of _ tail]) simp
qed simp_all

lemma EncodeCuda_dev:
  assumes "EncodeCuda sdk nW nH opts ctx src w = (r, w')"
  shows "dev w' src = dev w src"
    and "\<exists>k \<le> 375. submitted w' = submitted w @ replicate k (dev w src) \<and> ((\<exists>u. r = Inr u) \<longrightarrow> k = 375)"
proof -
  show "dev w' src = dev w src"
    using assms
  proof (cases rule: EncodeCuda_cases)
    case (loop_failed e0 a)
    from loop_dev[OF loop_failed(1) zero_le_last_frame] show ?thesis by simp
  next
    case (destroy_failed e0 e' n' w2 m)
    from loop_dev[OF destroy_failed(1) zero_le_last_frame] destroy_failed(3) show ?thesis by simp
  next
    case (completed e0 e' n' w2)
    from loop_dev[OF completed(1) zero_le_last_frame] completed(3) show ?thesis by simp
  qed simp
  show "\<exists>k \<le> 375. submitted w' = submitted w @ replicate k (dev w src) \<and> ((\<exists>u. r = Inr u) \<longrightarrow> k = 375)"
    using assms
  proof (cases rule: EncodeCuda_cases)
    case (setup_failed m k)
    then show ?thesis by (intro exI[of _ 0]) simp
  next
    case (loop_failed e0 a)
    from loop_dev[OF loop_failed(1) zero_le_last_frame] loop_failed(2) show ?thesis
      by (auto simp: last_frame_val)
  next
    case (destroy_failed e0 e' n' w2 m)
    from loop_dev[OF destroy_failed(1) zero_le_last_frame] destroy_failed(2,3) show ?thesis
      by (auto simp: last_frame_val)
  next
    case (completed e0 e' n' w2)
    from loop_dev[OF completed(1) zero_le_last_frame] completed(2,3) show ?thesis
      by (auto simp: last_frame_val)
  qed
qed

lemma EncodeCuda_copies:
  assumes "EncodeCuda sdk nW nH opts ctx src w = (r, w')"
  shows "\<exists>new k. calls w' = calls w @ new \<and> k \<le> 375
      \<and> List.map_filter copy_source new = replicate k src \<and> ((\<exists>u. r = Inr u) \<longrightarrow> k = 375)"
proof (cases r)
  case (Inr u)
  with assms EncodeCuda_calls_ok[of sdk nW nH opts ctx src w u w'] obtain slots where
    "length slots = 375"
    "calls w' = calls w @ setup_calls nW nH @ concat (map (submission src) slots)
                  @ [Call_EndEncode, Call_DestroyEncoder]"
    by blast
  then show ?thesis
    by (intro exI[of _ "setup_calls nW nH @ concat (map (submission src) slots)
                  @ [Call_EndEncode, Call_DestroyEncoder]"] exI[of _ 375])
       (simp add: copy_source_full)
next
  case (Inl a)
  from EncodeCuda_calls_any[OF assms] obtain slots cs where
    slots: "length slots = 375" "calls w' = calls w @ cs"
      "prefix cs (setup_calls nW nH @ concat (map (submission src) slots)
                  @ [Call_EndEncode, Call_DestroyEncoder])"
    by blast
  from copy_source_prefix[OF slots(3)] slots(1) obtain k where
    "k \<le> 375" "List.map_filter copy_source cs = replicate k src" by auto
  with slots(2) Inl show ?thesis
    by (intro exI[of _ cs] exI[of _ k]) simp
qed

subsection \<open>The stand-in never fails\<close>

lemma toy_loop_body: "\<exists>x w1. loop_body toy ctx src i e w = (Inr x, w1)"
  by (simp add: loop_body_def submit_frame_def flush_encoder_def andThen_def call_def ret_def toy_def)

lemma toy_loop_total: "\<exists>x w'. EncodeLoop toy ctx src i (e, n) w = (Inr x, w')"
proof (induction toy ctx src i "(e, n)" arbitrary: e n w rule: EncodeLoop.induct)
  case (1 ctx src i e n)
  show ?case
  proof (cases "i \<le> last_frame")
    case False
    then show ?thesis by (simp add: loop_done)
  next
    case True
    from toy_loop_body obtain x w1 where "loop_body toy ctx src i e w = (Inr x, w1)" by blast
    then obtain vp e' where b: "loop_body toy ctx src i e w = (Inr (vp, e'), w1)" by (cases x) simp
    from "1.hyps"[OF True] loop_next[OF True b] show ?thesis by simp
  qed
qed

lemma toy_EncodeCuda_total: "\<exists>w'. EncodeCuda toy nW nH opts ctx src w = (Inr (), w')"
proof -
  let ?w0 = "w\<lparr>calls := calls w @ setup_calls nW nH\<rparr>"
  from toy_loop_total obtain x w2 where l: "EncodeLoop toy ctx src 0 (0, 0) ?w0 = (Inr x, w2)" by blast
  obtain e' n' where "x = (e', n')" by (cases x)
  with l show ?thesis
    by (simp add: EncodeCuda_def InitializeEncoder_def andThen_def call_def print_def toy_def
        setup_calls_def)
qed

lemma length_concat_le: "\<forall>v \<in> set fs. length v \<le> 1 \<Longrightarrow> length (concat fs) \<le> length fs"
  by (induction fs) auto

section \<open>The command line parser\<close>

lemma lower_flags:
  "map tolower ''-h'' = ''-h''" "map tolower ''-i'' = ''-i''" "map tolower ''-o'' = ''-o''"
  "map tolower ''-s'' = ''-s''" "map tolower ''-if'' = ''-if''" "map tolower ''-gpu'' = ''-gpu''"
  "map tolower ''-cuStreamType'' = ''-custreamtype''"
  by code_simp+

lemma stricmp_refl: "stricmp a a"
  by (simp add: stricmp_def)

lemma find_std_length: "find_std xs v = length xs \<longleftrightarrow> v \<notin> set xs"
proof (induction xs)
  case Nil
  show ?case by simp
next
  case (Cons x xs)
  have "find_std xs v \<le> length xs" for xs :: "'a list"
    by (induction xs) auto
  with Cons show ?case by auto
qed

lemma find_std_nth: "distinct xs \<Longrightarrow> k < length xs \<Longrightarrow> find_std xs (xs ! k) = k"
proof (induction xs arbitrary: k)
  case Nil
  then show ?case by simp
next
  case (Cons x xs)
  then show ?case by (cases k) auto
qed

lemma distinct_names: "distinct vszFileFormatName"
  by (simp add: vszFileFormatName_def)

lemma ParseArgs_gpu:
  assumes "stricmp a ''-gpu''"
  shows "ParseArgs (a # v # rest) st = ParseArgs rest (st\<lparr>iGpu := atoi v\<rparr>)"
  using assms by (simp add: ParseArgs.simps stricmp_def lower_flags)

lemma ParseArgs_if:
  assumes "stricmp a ''-if''"
  shows "ParseArgs (a # v # rest) st =
     (if v \<in> set vszFileFormatName
      then ParseArgs rest (st\<lparr>eFormat := aFormat ! find_std vszFileFormatName v\<rparr>)
      else Inl (BadOption ''-if''))"
  using assms by (simp add: ParseArgs.simps stricmp_def lower_flags find_std_length)

lemma atoi_no_digit:
  assumes "\<forall>ch \<in> set v. \<not> isdigit_c ch"
  shows "atoi v = 0"
proof -
  define t where "t = dropWhile isspace_c v"
  define u where "u = (case t of [] \<Rightarrow> [] | c # r \<Rightarrow> if c = CHR ''-'' \<or> c = CHR ''+'' then r else t)"
  have "set t \<subseteq> set v" unfolding t_def by (auto dest: set_dropWhileD)
  moreover have "set u \<subseteq> set t" unfolding u_def by (cases t) auto
  ultimately have "set u \<subseteq> set v" by blast
  with assms have "takeWhile isdigit_c u = []" by (cases u) auto
  then have "takeWhile isdigit_c (case dropWhile isspace_c v of [] \<Rightarrow> []
      | c # r \<Rightarrow> if c = CHR ''-'' \<or> c = CHR ''+'' then r else dropWhile isspace_c v) = []"
    unfolding u_def t_def .
  then show ?thesis
    by (simp add: atoi_def strtol10_def Let_def)
qed

subsection \<open>The 32-bit conversions\<close>

lemma to_int32_eq: "to_int32 v = (v + 2 ^ 31) mod 2 ^ 32 - 2 ^ 31"
  by (simp add: to_int32_def int_word_sint)

lemma to_int32_range: "- (2 ^ 31) \<le> to_int32 v \<and> to_int32 v < 2 ^ 31"
proof -
  have "0 \<le> (v + 2 ^ 31) mod 2 ^ 32" "(v + 2 ^ 31) mod 2 ^ 32 < (2 ^ 32 :: int)"
    by simp_all
  then show ?thesis unfolding to_int32_eq by simp
qed

lemma to_int32_id: "- (2 ^ 31) \<le> v \<Longrightarrow> v < 2 ^ 31 \<Longrightarrow> to_int32 v = v"
  unfolding to_int32_eq by simp

lemma atoi_range: "- (2 ^ 31) \<le> atoi v \<and> atoi v < 2 ^ 31"
proof (cases "strtol10 v")
  case None
  then show ?thesis by (simp add: atoi_def)
next
  case (Some p)
  obtain x r where p: "p = (x, r)" by (cases p)
  from Some p obtain y where "x = to_int32 y"
    by (auto simp add: strtol10_def Let_def split: if_splits)
  with to_int32_range[of y] Some p show ?thesis by (simp add: atoi_def)
qed

lemma isdigit_c_int: "isdigit_c c \<Longrightarrow> (48 :: int) \<le> of_char c"
proof -
  assume "isdigit_c c"
  then have "(48 :: nat) \<le> of_char c" by (simp add: isdigit_c_def)
  then have "int 48 \<le> int (of_char c)" by (simp only: of_nat_le_iff)
  then show ?thesis by (simp add: of_nat_of_char)
qed

lemma digits_value_ge:
  "0 \<le> acc \<Longrightarrow> \<forall>ch \<in> set ds. isdigit_c ch \<Longrightarrow> acc \<le> digits_value acc ds"
proof (induction ds arbitrary: acc)
  case Nil
  show ?case by simp
next
  case (Cons c cs)
  from Cons.prems(2) have "(48 :: int) \<le> of_char c" by (simp add: isdigit_c_int)
  with Cons.prems(1) have a: "0 \<le> acc * 10 + (of_char c - 48)" "acc \<le> acc * 10 + (of_char c - 48)"
    by simp_all
  from Cons.IH[OF a(1)] Cons.prems(2) a(2) show ?case by simp
qed

lemma digit_not_space: "isdigit_c c \<Longrightarrow> \<not> isspace_c c"
  by (auto simp add: isdigit_c_def isspace_c_def)

lemma digit_not_sign: "isdigit_c c \<Longrightarrow> c \<noteq> CHR ''-'' \<and> c \<noteq> CHR ''+''"
  by (auto simp add: isdigit_c_def)

lemma takeWhile_digits:
  assumes "\<forall>ch \<in> set ds. isdigit_c ch" and "r = [] \<or> \<not> isdigit_c (hd r)"
  shows "takeWhile isdigit_c (ds @ r) = ds"
proof -
  from assms(2) have "takeWhile isdigit_c r = []" by (cases r) auto
  with assms(1) show ?thesis by (simp add: takeWhile_append2)
qed

lemma atoi_leading_digits:
  assumes "ds \<noteq> []" and "\<forall>ch \<in> set ds. isdigit_c ch" and "r = [] \<or> \<not> isdigit_c (hd r)"
    and "digits_value 0 ds < 2 ^ 31"
  shows "atoi (ds @ r) = digits_value 0 ds"
proof -
  from assms(1) obtain c cs where ds: "ds = c # cs" by (cases ds) auto
  with assms(2) have c: "isdigit_c c" by simp
  from c digit_not_space have t: "dropWhile isspace_c (ds @ r) = ds @ r" by (simp add: ds)
  from takeWhile_digits[OF assms(2,3)] have tw: "takeWhile isdigit_c (c # cs @ r) = c # cs"
    by (simp only: ds append_Cons)
  from digits_value_ge[OF _ assms(2), of 0] have ge: "0 \<le> digits_value 0 ds" by simp
  with assms(4) have "clamp_long (digits_value 0 ds) = digits_value 0 ds"
    by (simp add: clamp_long_def)
  moreover from ge assms(4) have "to_int32 (digits_value 0 ds) = digits_value 0 ds"
    by (intro to_int32_id) simp_all
  ultimately have v: "to_int32 (clamp_long (digits_value 0 (c # cs))) = digits_value 0 (c # cs)"
    by (simp only: ds)
  from digit_not_sign[OF c] digit_not_space[OF c] tw v show ?thesis
    unfolding atoi_def strtol10_def ds by (simp add: Let_def del: digits_value.simps takeWhile.simps)
qed

subsection \<open>Flags and what is not a flag\<close>


















lemma parse_gpu_missing:
  "ParseArgs [''-i'', ''a.jpg'', ''-GPU''] cli0 = Inl (BadOption ''-gpu'')"
  by code_simp

lemma parse_stray:
  "ParseArgs [''a.jpg''] cli0 = Inl (BadOption ''a.jpg'')"
  by code_simp


lemma sscanf_tail: "sscanf_dxd ''640x480zzz'' 0 0 = (2, 640, 480)"
  by code_simp

lemma atoi_wrap: "atoi ''4294967296'' = 0" "atoi ''1x'' = 1" "atoi ''abc'' = 0"
  by code_simp+

subsection \<open>Some command lines\<close>

lemma parse_upper_name: "ParseArgs [''-if'', ''NV12''] cli0 = Inl (BadOption ''-if'')"
  by code_simp

lemma parse_gpu_1x: "ParseArgs [''-gpu'', ''1x''] cli0 = Inr (cli0\<lparr>iGpu := 1\<rparr>)"
  by code_simp

lemma parse_vidmem:
  "ParseArgs [''-i'', ''a.jpg'', ''-o'', ''out.h264'', ''-outputInVidMem'', ''1''] cli0
   = Inr (cli0\<lparr>szInputFileName := ''a.jpg'', szOutputFileName := ''out.h264'',
               oss := ''-outputInVidMem 1 ''\<rparr>)"
  by code_simp

lemma parse_if_nv12:
  "ParseArgs [''-i'', ''a.jpg'', ''-o'', ''out.h264'', ''-if'', ''nv12''] cli0
   = Inr (cli0\<lparr>szInputFileName := ''a.jpg'', szOutputFileName := ''out.h264'',
               eFormat := NV_ENC_BUFFER_FORMAT_NV12\<rparr>)"
  by code_simp

lemma parse_size:
  "ParseArgs [''-i'', ''a.jpg'', ''-o'', ''out.h264'', ''-s'', ''640x480''] cli0
   = Inr (cli0\<lparr>szInputFileName := ''a.jpg'', szOutputFileName := ''out.h264'',
               nWidth := 640, nHeight := 480\<rparr>)"
  by code_simp

lemma no_yv12_in_help: "\<not> sublist ''yv12'' (concat help_options)"
  by code_simp

section \<open>The help path\<close>

lemma probing_refl_Inr: "probing w (Inr x) w"
  by (simp add: probing_def untouched_def)

lemma probes_ret: "probes (ret x)"
  by (simp add: probes_def ret_def probing_def untouched_def)

lemma probes_print: "probes (print items)"
  by (simp add: probes_def print_def probing_def untouched_def)

lemma probes_call: "probe_call c \<Longrightarrow> probes (call c r)"
  by (cases r) (simp_all add: probes_def call_def probing_def untouched_def)

lemma probes_ck: "probe_call c \<Longrightarrow> probes (ck c r)"
  by (cases r) (simp_all add: probes_def ck_def probing_def untouched_def)

lemma probing_trans:
  assumes "probing w (Inr x) w1" and "probing w1 r w2"
  shows "probing w r w2"
proof -
  from assms(1) have u1: "untouched w w1" and d1: "dev w1 = dev w"
    and f1: "failures w1 = failures w"
    by (simp_all add: probing_def)
  from assms(1) obtain cs1 where c1: "calls w1 = calls w @ cs1" "list_all probe_call cs1"
    by (auto simp add: probing_def)
  from assms(1) obtain o1 where o1: "cout w1 = cout w @ o1"
    by (auto simp add: probing_def)
  from assms(2) have u2: "untouched w1 w2" and d2: "dev w2 = dev w1"
    by (simp_all add: probing_def)
  from assms(2) obtain cs2 where c2: "calls w2 = calls w1 @ cs2" "list_all probe_call cs2"
    by (auto simp add: probing_def)
  from assms(2) obtain o2 where o2: "cout w2 = cout w1 @ o2"
    by (auto simp add: probing_def)
  from assms(2) have r2: "case r of
          Inr x \<Rightarrow> failures w2 = failures w1
        | Inl (Throw m) \<Rightarrow> calls w2 \<noteq> [] \<and> failures w2 = failures w1 @ [(last (calls w2), m)]
        | Inl (Exit n) \<Rightarrow>
            n = 1 \<and> calls w2 \<noteq> []
            \<and> (\<exists>m. failures w2 = failures w1 @ [(last (calls w2), m)] \<and> Str m \<in> set (cout w2))"
    by (simp add: probing_def)
  have "untouched w w2" using u1 u2 by (simp add: untouched_def)
  moreover have "dev w2 = dev w" using d1 d2 by simp
  moreover have "\<exists>cs. calls w2 = calls w @ cs \<and> list_all probe_call cs"
    using c1 c2 by simp
  moreover have "\<exists>out. cout w2 = cout w @ out" using o1 o2 by simp
  ultimately show ?thesis using r2 by (simp add: probing_def f1 split: sum.splits abort.splits)
qed

lemma probes_andThen:
  assumes "probes m" and "\<And>x. probes (f x)"
  shows "probes (andThen m f)"
proof -
  have "probing w (fst (andThen m f w)) (snd (andThen m f w))" for w
  proof (cases "m w")
    case (Pair r w1)
    from assms(1) have p1: "probing w r w1" using Pair by (simp add: probes_def) (metis fst_conv snd_conv)
    show ?thesis
    proof (cases r)
      case (Inl a)
      with p1 have "probing w (Inl a) w1" by (simp add: probing_def)
      with Pair Inl show ?thesis by (simp add: andThen_def)
    next
      case (Inr x)
      from assms(2)[of x] have "probing w1 (fst (f x w1)) (snd (f x w1))"
        by (simp add: probes_def)
      with p1 Inr have "probing w (fst (f x w1)) (snd (f x w1))"
        by (auto intro: probing_trans)
      with Pair Inr show ?thesis by (simp add: andThen_def)
    qed
  qed
  thus ?thesis by (simp add: probes_def)
qed

lemma probes_cap_yes_no: "probes (cap_yes_no sdk enc label codec cap)"
  unfolding cap_yes_no_def
  by (intro probes_andThen probes_print probes_call) simp

lemma probes_cap_WxH: "probes (cap_WxH sdk enc label codec)"
  unfolding cap_WxH_def
  by (intro probes_andThen probes_print probes_call) simp_all

lemma probes_ShowGpuCapability: "probes (ShowGpuCapability sdk i)"
  unfolding ShowGpuCapability_def
  by (intro probes_andThen probes_print probes_call probes_ck probes_cap_yes_no probes_cap_WxH)
     simp_all

lemma probes_ShowGpuLoop: "probes (ShowGpuLoop sdk nGpu i)"
proof (induction sdk nGpu i rule: ShowGpuLoop.induct)
  case (1 sdk nGpu i)
  show ?case
  proof (cases "i < nGpu")
    case True
    have "probes (andThen (ShowGpuCapability sdk i) (\<lambda>_. ShowGpuLoop sdk nGpu (i + 1)))"
      by (intro probes_andThen probes_ShowGpuCapability "1.IH"[OF True])
    with True show ?thesis by (simp add: ShowGpuLoop.simps[of sdk nGpu i])
  next
    case False
    thus ?thesis by (simp add: ShowGpuLoop.simps[of sdk nGpu i] probes_ret)
  qed
qed

lemma probes_ShowEncoderCapability: "probes (ShowEncoderCapability sdk)"
  unfolding ShowEncoderCapability_def
  by (intro probes_andThen probes_print probes_ck probes_ShowGpuLoop) simp_all

lemma ShowEncoderCapability_probing:
  assumes "ShowEncoderCapability sdk w = (r, w')"
  shows "probing w r w'"
  using probes_ShowEncoderCapability[of sdk] assms by (auto simp add: probes_def dest: spec[of _ w])

lemma probe_formats:
  "list_all probe_call cs \<Longrightarrow>
     List.map_filter opened_format cs
       = replicate (length (List.map_filter opened_format cs)) NV_ENC_BUFFER_FORMAT_NV12"
proof (induction cs)
  case Nil
  show ?case by (simp add: map_filter_simps)
next
  case (Cons c cs)
  then show ?case by (cases c) (simp_all add: map_filter_simps)
qed

lemma probe_sizes:
  "list_all probe_call cs \<Longrightarrow>
     List.map_filter opened_size cs
       = replicate (length (List.map_filter opened_size cs)) (1280, 720)"
proof (induction cs)
  case Nil
  show ?case by (simp add: map_filter_simps)
next
  case (Cons c cs)
  then show ?case by (cases c) (simp_all add: map_filter_simps)
qed

section \<open>The whole program\<close>

lemma ParseCommandLine_cases:
  assumes "ParseCommandLine sdk argv w = (r, w')"
  obtains
    (bad_option) b where "ParseArgs (tl argv) cli0 = Inl (BadOption b)"
      "r = Inl (Throw (help_message sdk (Some b)))" "w' = w"
  | (help_shown) "ParseArgs (tl argv) cli0 = Inl Help" "r = Inl (Exit 0)"
      "probing w (Inr () :: abort + unit) w'"
      "\<exists>out. cout w' = cout w @ Str (help_message sdk None) # out"
  | (help_failed) a where "ParseArgs (tl argv) cli0 = Inl Help" "r = Inl a"
      "probing w (Inl a :: abort + unit) w'"
  | (options_failed) c m where "ParseArgs (tl argv) cli0 = Inr c"
      "NvEncoderInitParam sdk (oss c) = Inl m" "r = Inl (Throw m)"
      "w' = w\<lparr>calls := calls w @ [Call_NvEncoderInitParam (oss c)],
              failures := failures w @ [(Call_NvEncoderInitParam (oss c), m)]\<rparr>"
  | (parsed) c where "ParseArgs (tl argv) cli0 = Inr c"
      "r = Inr c" "w' = w\<lparr>calls := calls w @ [Call_NvEncoderInitParam (oss c)]\<rparr>"
proof (cases "ParseArgs (tl argv) cli0")
  case (Inl s)
  show ?thesis
  proof (cases s)
    case Help
    let ?w1 = "w\<lparr>cout := cout w @ [Str (help_message sdk None)]\<rparr>"
    obtain rh wh where h: "ShowEncoderCapability sdk ?w1 = (rh, wh)"
      by (cases "ShowEncoderCapability sdk ?w1")
    have p1: "probing w (Inr () :: abort + unit) ?w1"
      by (simp add: probing_def untouched_def)
    note ph = ShowEncoderCapability_probing[OF h]
    show ?thesis
    proof (cases rh)
      case a: (Inl a)
      from ph a have "probing ?w1 (Inl a :: abort + unit) wh" by simp
      with p1 have "probing w (Inl a :: abort + unit) wh" by (rule probing_trans)
      moreover from Inl Help assms h a have "r = Inl a" "w' = wh"
        by (simp_all add: ParseCommandLine_def ShowHelpAndExit_def andThen_def print_def)
      ultimately show ?thesis using help_failed[of a] Inl Help by simp
    next
      case u: (Inr u)
      from ph u have pu: "probing ?w1 (Inr () :: abort + unit) wh" by simp
      with p1 have "probing w (Inr () :: abort + unit) wh" by (rule probing_trans)
      moreover from pu have "\<exists>out. cout wh = cout w @ Str (help_message sdk None) # out"
        by (auto simp add: probing_def)
      moreover from Inl Help assms h u have "r = Inl (Exit 0)" "w' = wh"
        by (simp_all add: ParseCommandLine_def ShowHelpAndExit_def andThen_def print_def
            exit_with_def)
      ultimately show ?thesis using help_shown Inl Help by simp
    qed
  next
    case (BadOption b)
    with Inl assms bad_option[of b] show ?thesis
      by (simp add: ParseCommandLine_def ShowHelpAndExit_def throw_def)
  qed
next
  case (Inr c)
  show ?thesis
  proof (cases "NvEncoderInitParam sdk (oss c)")
    case m: (Inl m)
    with Inr assms options_failed[of c m] show ?thesis
      by (simp add: ParseCommandLine_def andThen_def call_def)
  next
    case u: (Inr u)
    with Inr assms parsed[of c] show ?thesis
      by (simp add: ParseCommandLine_def andThen_def call_def ret_def)
  qed
qed


lemma main_try_cases:
  assumes "main_try sdk argv w = (r, w')"
  obtains
    (bad_option) b where "ParseArgs (tl argv) cli0 = Inl (BadOption b)"
      "r = Inl (Throw (help_message sdk (Some b)))" "w' = w"
  | (help_shown) "ParseArgs (tl argv) cli0 = Inl Help" "r = Inl (Exit 0)"
      "probing w (Inr () :: abort + unit) w'"
      "\<exists>out. cout w' = cout w @ Str (help_message sdk None) # out"
  | (help_failed) a where "ParseArgs (tl argv) cli0 = Inl Help" "r = Inl a"
      "probing w (Inl a :: abort + unit) w'"
  | (thrown) c m k nW nH where "ParseArgs (tl argv) cli0 = Inr c" "k < 6"
      "r = Inl (Throw m)" "calls w' = calls w @ take (Suc k) (main_calls c nW nH)"
      "failures w' = failures w @ [(main_calls c nW nH ! k, m)]"
      "cout w' = cout w" "untouched w w'"
  | (fatal) c m k nW nH pre where "ParseArgs (tl argv) cli0 = Inr c" "k < 11"
      "r = Inl (Exit 1)" "calls w' = calls w @ take (Suc k) (main_calls c nW nH)"
      "failures w' = failures w @ [(main_calls c nW nH ! k, m)]"
      "cout w' = cout w @ pre @ [Str ''CUDA driver API error '', Str m, Str endl]" "untouched w w'"
  | (gpu_out_of_range) c nGpu nW nH where "ParseArgs (tl argv) cli0 = Inr c"
      "cuDeviceGetCount sdk = Inr nGpu" "iGpu c < 0 \<or> nGpu \<le> iGpu c"
      "r = Inl (Exit 1)" "calls w' = calls w @ take 8 (main_calls c nW nH)"
      "failures w' = failures w"
      "cout w' = cout w @ [Str ''GPU ordinal out of range. Should be within ['', Num 0, Str '', '',
                       Num (nGpu - 1), Str '']'', Str endl]" "untouched w w'"
  | (cannot_open) c nGpu nW nH name where "ParseArgs (tl argv) cli0 = Inr c"
      "cuDeviceGetCount sdk = Inr nGpu" "0 \<le> iGpu c" "iGpu c < nGpu"
      "\<not> ofstream_open sdk (szOutputFileName c)"
      "r = Inl (Throw (''Unable to open output file: '' @ szOutputFileName c @ endl))"
      "calls w' = calls w @ main_calls c nW nH" "failures w' = failures w"
      "cout w' = cout w @ [Str ''GPU in use: '', Str name, Str endl]" "untouched w w'"
  | (encode) c img nGpu name ctx p w0 re we where "ParseArgs (tl argv) cli0 = Inr c"
      "imread sdk (szInputFileName c) = Inr img"
      "cuDeviceGetCount sdk = Inr nGpu" "0 \<le> iGpu c" "iGpu c < nGpu"
      "ofstream_open sdk (szOutputFileName c)"
      "calls w0 = calls w @ main_calls c (cols img) (rows img)" "failures w0 = failures w"
      "cout w0 = cout w @ [Str ''GPU in use: '', Str name, Str endl]" "untouched w w0"
      "EncodeCuda sdk (cols img) (rows img) (oss c) ctx p w0 = (re, we)"
      "case re of Inl a \<Rightarrow> r = Inl a \<and> w' = we
               | Inr u \<Rightarrow> r = Inr () \<and> w' = we\<lparr>cout := cout we @
                   [Str ''Bitstream saved in file '', Str (szOutputFileName c), Str endl]\<rparr>"
proof -
  obtain rp wp where p: "ParseCommandLine sdk argv w = (rp, wp)"
    by (cases "ParseCommandLine sdk argv w")
  from p show ?thesis
  proof (cases rule: ParseCommandLine_cases)
    case (bad_option b)
    with p assms that(1)[of b] show ?thesis by (auto simp: main_try_def andThen_def)
  next
    case help_shown
    with p assms that(2) show ?thesis by (auto simp: main_try_def andThen_def)
  next
    case (help_failed a)
    with p assms that(3)[of a] show ?thesis by (auto simp: main_try_def andThen_def)
  next
    case (options_failed c m)
    with p assms that(4)[where c=c and k=0 and m=m and nW=0 and nH=0] show ?thesis
      by (auto simp: main_try_def andThen_def main_calls_def untouched_def)
  next
    case (parsed c)
    note p1 = p[unfolded parsed(2,3)]
    note defs = main_try_def andThen_def call_def ck_def print_def exit_with_def throw_def
      main_calls_def untouched_def
    show ?thesis
    proof (cases "imread sdk (szInputFileName c)")
      case (Inl m)
      with p1 assms parsed(1) that(4)[where c=c and k=1 and m=m and nW=0 and nH=0] show ?thesis by (auto simp: defs)
    next
      case img: (Inr img)
      show ?thesis
      proof (cases "upload sdk img (dev w)")
        case (Inl m)
        with p1 img assms parsed(1) that(4)[where c=c and k=2 and m=m and nW=0 and nH=0] show ?thesis
          by (auto simp: defs numeral_2_eq_2)
      next
        case up: (Inr x1)
        obtain p1' d1 where x1: "x1 = (p1', d1)" by (cases x1)
        show ?thesis
        proof (cases "cvtColor sdk p1' d1")
          case (Inl m)
          with p1 img up x1 assms parsed(1) that(4)[where c=c and k=3 and m=m and nW=0 and nH=0] show ?thesis
            by (auto simp: defs numeral_3_eq_3)
        next
          case cv: (Inr x2)
          obtain p2 d2 where x2: "x2 = (p2, d2)" by (cases x2)
          show ?thesis
          proof (cases "download sdk p2 d2")
            case (Inl m)
            with p1 img up x1 cv x2 assms parsed(1) that(4)[where c=c and k=4 and m=m and nW=0 and nH=0] show ?thesis
              by (auto simp: defs eval_nat_numeral)
          next
            case dl: (Inr u1)
            show ?thesis
            proof (cases "ValidateResolution sdk (cols img) (rows img)")
              case (Inl m)
              with p1 img up x1 cv x2 dl assms parsed(1) that(4)[where c=c and k=5 and m=m and nW="cols img" and nH="rows img"]
              show ?thesis by (auto simp: defs eval_nat_numeral)
            next
              case vr: (Inr u2)
              show ?thesis
              proof (cases "cuInit sdk")
                case (Inl m)
                with p1 img up x1 cv x2 dl vr assms parsed(1)
                  that(5)[where c=c and k=6 and m=m and nW="cols img" and nH="rows img" and pre="[]"]
                show ?thesis by (auto simp: defs eval_nat_numeral)
              next
                case ci: (Inr u3)
                show ?thesis
                proof (cases "cuDeviceGetCount sdk")
                  case (Inl m)
                  with p1 img up x1 cv x2 dl vr ci assms parsed(1)
                    that(5)[where c=c and k=7 and m=m and nW="cols img" and nH="rows img" and pre="[]"]
                  show ?thesis by (auto simp: defs eval_nat_numeral)
                next
                  case gc: (Inr nGpu)
                  show ?thesis
                  proof (cases "iGpu c < 0 \<or> nGpu \<le> iGpu c")
                    case True
                    with p1 img up x1 cv x2 dl vr ci gc assms parsed(1)
                      that(6)[where c=c and nGpu=nGpu and nW="cols img" and nH="rows img"]
                    show ?thesis by (auto simp: defs eval_nat_numeral)
                  next
                    case rng: False
                    show ?thesis
                    proof (cases "cuDeviceGet sdk (iGpu c)")
                      case (Inl m)
                      with p1 img up x1 cv x2 dl vr ci gc rng assms parsed(1)
                        that(5)[where c=c and k=8 and m=m and nW="cols img" and nH="rows img" and pre="[]"]
                      show ?thesis by (auto simp: defs eval_nat_numeral)
                    next
                      case dv: (Inr cuDevice)
                      show ?thesis
                      proof (cases "cuDeviceGetName sdk cuDevice")
                        case (Inl m)
                        with p1 img up x1 cv x2 dl vr ci gc rng dv assms parsed(1)
                          that(5)[where c=c and k=9 and m=m and nW="cols img" and nH="rows img" and pre="[]"]
                        show ?thesis by (auto simp: defs eval_nat_numeral)
                      next
                        case nm: (Inr name)
                        show ?thesis
                        proof (cases "cuCtxCreate sdk cuDevice")
                          case (Inl m)
                          with p1 img up x1 cv x2 dl vr ci gc rng dv nm assms parsed(1)
                            that(5)[where c=c and k=10 and m=m and nW="cols img" and nH="rows img" and pre="[Str ''GPU in use: '', Str name, Str endl]"]
                          show ?thesis by (auto simp: defs eval_nat_numeral)
                        next
                          case cx: (Inr ctx)
                          show ?thesis
                          proof (cases "ofstream_open sdk (szOutputFileName c)")
                            case False
                            with p1 img up x1 cv x2 dl vr ci gc rng dv nm cx assms parsed(1)
                              that(7)[where c=c and nGpu=nGpu and nW="cols img" and nH="rows img" and name=name]
                            show ?thesis by (auto simp: defs)
                          next
                            case op: True
                            let ?w0 = "w\<lparr>dev := d2,
                                          cout := cout w @ [Str ''GPU in use: '', Str name, Str endl],
                                          calls := calls w @ main_calls c (cols img) (rows img)\<rparr>"
                            obtain re we where e:
                              "EncodeCuda sdk (cols img) (rows img) (oss c) ctx p2 ?w0 = (re, we)"
                              by (cases "EncodeCuda sdk (cols img) (rows img) (oss c) ctx p2 ?w0")
                            have "case re of Inl a \<Rightarrow> r = Inl a \<and> w' = we
                                | Inr u \<Rightarrow> r = Inr () \<and> w' = we\<lparr>cout := cout we @
                                   [Str ''Bitstream saved in file '', Str (szOutputFileName c), Str endl]\<rparr>"
                              using p1 img up x1 cv x2 dl vr ci gc rng dv nm cx op assms e
                              by (auto simp: defs split: sum.splits)
                            with that(8)[where c=c and img=img and nGpu=nGpu and ?w0.0="?w0" and name=name and ctx=ctx and p=p2 and re=re and we=we] parsed(1) img gc rng op e
                            show ?thesis by (simp add: untouched_def)
                          qed
                        qed
                      qed
                    qed
                  qed
                qed
              qed
            qed
          qed
        qed
      qed
    qed
  qed
qed

lemma EncodeCuda_failures:
  assumes "EncodeCuda sdk nW nH opts ctx src w = (r, w')"
  shows "case r of
      Inr u \<Rightarrow> failures w' = failures w
    | Inl a \<Rightarrow> \<exists>m. a = Throw m \<and> calls w' \<noteq> [] \<and> failures w' = failures w @ [(last (calls w'), m)]
                   \<and> cout w' = cout w"
  using assms
proof (cases rule: EncodeCuda_cases)
  case (setup_failed m k)
  from setup_failed(2) have "k < length (setup_calls nW nH)" by (simp add: setup_calls_def)
  then have "last (take (Suc k) (setup_calls nW nH)) = setup_calls nW nH ! k"
    by (simp add: take_Suc_conv_app_nth)
  moreover have "take (Suc k) (setup_calls nW nH) \<noteq> []" by (simp add: setup_calls_def)
  ultimately show ?thesis using setup_failed(1,3) by simp
next
  case (loop_failed e0 a)
  from loop_failures[OF loop_failed(1)] loop_dev[OF loop_failed(1) zero_le_last_frame] loop_failed(2)
  show ?thesis by auto
next
  case (destroy_failed e0 e' n' w2 m)
  from loop_failures[OF destroy_failed(1)] loop_dev[OF destroy_failed(1) zero_le_last_frame]
    destroy_failed(2,3)
  show ?thesis by auto
next
  case (completed e0 e' n' w2)
  from loop_failures[OF completed(1)] completed(2,3) show ?thesis by auto
qed



lemma map_filter_prefix:
  "prefix xs ys \<Longrightarrow> prefix (List.map_filter f xs) (List.map_filter f ys)"
  by (auto simp: prefix_def map_filter_append)

lemma prefix_replicate:
  assumes "prefix zs (replicate n x)"
  shows "\<exists>k \<le> n. zs = replicate k x"
proof -
  from assms obtain ys where eq: "replicate n x = zs @ ys" by (auto simp: prefix_def)
  then have "length zs \<le> n" by (metis length_append length_replicate le_add1)
  moreover from eq have "zs = take (length zs) (replicate n x)" by simp
  then have "zs = replicate (min (length zs) n) x" by (simp only: take_replicate)
  ultimately show ?thesis by (intro exI[of _ "length zs"]) (simp add: min_def)
qed

lemma opened_format_main_calls: "List.map_filter opened_format (main_calls c nW nH) = []"
  by (simp add: main_calls_def map_filter_simps)

lemma opened_size_main_calls: "List.map_filter opened_size (main_calls c nW nH) = []"
  by (simp add: main_calls_def map_filter_simps)

lemma opened_format_submissions:
  "List.map_filter opened_format (concat (map (submission src) slots)) = []"
  by (induction slots) (simp_all add: map_filter_simps map_filter_append submission_def)

lemma opened_size_submissions:
  "List.map_filter opened_size (concat (map (submission src) slots)) = []"
  by (induction slots) (simp_all add: map_filter_simps map_filter_append submission_def)

lemma opened_format_full:
  "List.map_filter opened_format (setup_calls nW nH @ concat (map (submission src) slots)
       @ [Call_EndEncode, Call_DestroyEncoder])
   = replicate 2 NV_ENC_BUFFER_FORMAT_ABGR"
  by (simp add: map_filter_append opened_format_submissions)
     (simp add: map_filter_simps setup_calls_def numeral_2_eq_2)

lemma opened_size_full:
  "List.map_filter opened_size (setup_calls nW nH @ concat (map (submission src) slots)
       @ [Call_EndEncode, Call_DestroyEncoder])
   = replicate 1 (nW, nH)"
  by (simp add: map_filter_append opened_size_submissions)
     (simp add: map_filter_simps setup_calls_def)

lemma EncodeCuda_opened:
  assumes "EncodeCuda sdk nW nH opts ctx src w = (r, w')"
  shows "\<exists>cs k j. calls w' = calls w @ cs \<and> k \<le> 2 \<and> j \<le> 1
      \<and> List.map_filter opened_format cs = replicate k NV_ENC_BUFFER_FORMAT_ABGR
      \<and> List.map_filter opened_size cs = replicate j (nW, nH)
      \<and> ((\<exists>u. r = Inr u) \<longrightarrow> k = 2 \<and> j = 1)"
proof (cases r)
  case (Inr u)
  with assms have "EncodeCuda sdk nW nH opts ctx src w = (Inr u, w')" by simp
  from EncodeCuda_calls_ok[OF this] obtain slots where
    c: "calls w' = calls w @ setup_calls nW nH @ concat (map (submission src) slots)
                  @ [Call_EndEncode, Call_DestroyEncoder]"
    by (elim exE conjE)
  let ?cs = "setup_calls nW nH @ concat (map (submission src) slots)
                  @ [Call_EndEncode, Call_DestroyEncoder]"
  have "List.map_filter opened_format ?cs = replicate 2 NV_ENC_BUFFER_FORMAT_ABGR"
    by (rule opened_format_full)
  moreover have "List.map_filter opened_size ?cs = replicate 1 (nW, nH)"
    by (rule opened_size_full)
  ultimately show ?thesis using c
    by (intro exI[of _ ?cs] exI[of _ 2] exI[of _ 1] conjI) simp_all
next
  case (Inl a)
  from EncodeCuda_calls_any[OF assms] obtain slots cs where
    slots: "calls w' = calls w @ cs"
      "prefix cs (setup_calls nW nH @ concat (map (submission src) slots)
                  @ [Call_EndEncode, Call_DestroyEncoder])"
    by (elim exE conjE)
  from map_filter_prefix[OF slots(2), of opened_format]
  have "prefix (List.map_filter opened_format cs) (replicate 2 NV_ENC_BUFFER_FORMAT_ABGR)"
    by (simp only: opened_format_full)
  from prefix_replicate[OF this] obtain k where
    k: "k \<le> 2" "List.map_filter opened_format cs = replicate k NV_ENC_BUFFER_FORMAT_ABGR"
    by (elim exE conjE)
  from map_filter_prefix[OF slots(2), of opened_size]
  have "prefix (List.map_filter opened_size cs) (replicate 1 (nW, nH))"
    by (simp only: opened_size_full)
  from prefix_replicate[OF this] obtain j where
    j: "j \<le> 1" "List.map_filter opened_size cs = replicate j (nW, nH)"
    by (elim exE conjE)
  from slots(1) k j Inl show ?thesis
    by (intro exI[of _ cs] exI[of _ k] exI[of _ j] conjI) simp_all
qed

lemma toy_fields:
  "NvEncoderInitParam toy s = Inr ()"
  "imread toy f = (if f = [] then Inl ''cannot read'' else Inr \<lparr>cols = 4, rows = 2, pixels = 7\<rparr>)"
  "upload toy m dv = Inr (10, dv(10 := pixels m))"
  "cvtColor toy p dv = Inr (11, dv(11 := dv p + 1))"
  "download toy p dv = Inr ()"
  "ValidateResolution toy nW nH = (if nW \<le> 0 \<or> nH \<le> 0 then Inl ''bad resolution'' else Inr ())"
  "cuInit toy = Inr ()"
  "cuDeviceGetCount toy = Inr 1"
  "cuDeviceGet toy i = Inr i"
  "cuDeviceGetName toy i = Inr ''gpu''"
  "cuCtxCreate toy i = Inr 1"
  "ofstream_open toy f = (f \<noteq> [])"
  "GetHelpMessage toy = ''-codec''"
  "NvEncoderCuda toy ctx nW nH fmt = Inr 0"
  "DestroyEncoder toy e = Inr ()"
  "GetCapabilityValue toy e g cp = Inr 1"
  "cuCtxDestroy toy ctx = Inr ()"
  by (simp_all add: toy_def)

lemma toy_EncodeCuda_fst: "fst (EncodeCuda toy nW nH opts ctx src w) = Inr ()"
  using toy_EncodeCuda_total[of nW nH opts ctx src w] by auto

lemma main_from_try:
  assumes "main_try sdk argv (world0 d) = (r, w')"
  shows "main sdk d argv = (case r of Inr u \<Rightarrow> (0, w')
     | Inl (Throw m) \<Rightarrow> (1, w'\<lparr>cout := cout w' @ [Str m]\<rparr>)
     | Inl (Exit n) \<Rightarrow> (n, w'))"
  using assms by (simp add: main_def)

lemma toy_main_ok:
  assumes "ParseArgs (tl argv) cli0 = Inr c" "szInputFileName c \<noteq> []" "szOutputFileName c \<noteq> []"
    "iGpu c = 0"
  shows "fst (main toy d argv) = 0"
  using assms
  by (simp add: main_def main_try_def ParseCommandLine_def andThen_def call_def ck_def print_def
      ret_def toy_fields case_prod_unfold toy_EncodeCuda_fst split: sum.splits)



lemma main_cases:
  assumes "main sdk d argv = (st, w)"
  obtains
    (bad_option) b where "ParseArgs (tl argv) cli0 = Inl (BadOption b)" "st = 1"
      "w = (world0 d)\<lparr>cout := [Str (help_message sdk (Some b))]\<rparr>"
  | (help_shown) "ParseArgs (tl argv) cli0 = Inl Help" "st = 0"
      "list_all probe_call (calls w)" "failures w = []"
      "\<exists>out. cout w = Str (help_message sdk None) # out" "untouched (world0 d) w"
  | (help_failed) m where "ParseArgs (tl argv) cli0 = Inl Help" "st = 1"
      "list_all probe_call (calls w)" "calls w \<noteq> []" "failures w = [(last (calls w), m)]"
      "Str m \<in> set (cout w)" "untouched (world0 d) w"
  | (thrown) c m k nW nH where "ParseArgs (tl argv) cli0 = Inr c" "k < 6" "st = 1"
      "calls w = take (Suc k) (main_calls c nW nH)"
      "failures w = [(main_calls c nW nH ! k, m)]"
      "cout w = [Str m]" "untouched (world0 d) w"
  | (fatal) c m k nW nH pre where "ParseArgs (tl argv) cli0 = Inr c" "k < 11" "st = 1"
      "calls w = take (Suc k) (main_calls c nW nH)"
      "failures w = [(main_calls c nW nH ! k, m)]"
      "cout w = pre @ [Str ''CUDA driver API error '', Str m, Str endl]" "untouched (world0 d) w"
  | (gpu_out_of_range) c nGpu nW nH where "ParseArgs (tl argv) cli0 = Inr c"
      "cuDeviceGetCount sdk = Inr nGpu" "iGpu c < 0 \<or> nGpu \<le> iGpu c" "st = 1"
      "calls w = take 8 (main_calls c nW nH)" "failures w = []"
      "cout w = [Str ''GPU ordinal out of range. Should be within ['', Num 0, Str '', '',
                       Num (nGpu - 1), Str '']'', Str endl]" "untouched (world0 d) w"
  | (cannot_open) c nGpu nW nH name where "ParseArgs (tl argv) cli0 = Inr c"
      "cuDeviceGetCount sdk = Inr nGpu" "0 \<le> iGpu c" "iGpu c < nGpu"
      "\<not> ofstream_open sdk (szOutputFileName c)" "st = 1"
      "calls w = main_calls c nW nH" "failures w = []"
      "cout w = [Str ''GPU in use: '', Str name, Str endl,
                 Str (''Unable to open output file: '' @ szOutputFileName c @ endl)]"
      "untouched (world0 d) w"
  | (encode_failed) c img nGpu name ctx p w0 we m where "ParseArgs (tl argv) cli0 = Inr c"
      "imread sdk (szInputFileName c) = Inr img"
      "cuDeviceGetCount sdk = Inr nGpu" "0 \<le> iGpu c" "iGpu c < nGpu"
      "ofstream_open sdk (szOutputFileName c)"
      "calls w0 = main_calls c (cols img) (rows img)" "failures w0 = []"
      "cout w0 = [Str ''GPU in use: '', Str name, Str endl]" "untouched (world0 d) w0"
      "EncodeCuda sdk (cols img) (rows img) (oss c) ctx p w0 = (Inl (Throw m), we)"
      "st = 1" "w = we\<lparr>cout := cout we @ [Str m]\<rparr>"
  | (encoded) c img nGpu name ctx p w0 we where "ParseArgs (tl argv) cli0 = Inr c"
      "imread sdk (szInputFileName c) = Inr img"
      "cuDeviceGetCount sdk = Inr nGpu" "0 \<le> iGpu c" "iGpu c < nGpu"
      "ofstream_open sdk (szOutputFileName c)"
      "calls w0 = main_calls c (cols img) (rows img)" "failures w0 = []"
      "cout w0 = [Str ''GPU in use: '', Str name, Str endl]" "untouched (world0 d) w0"
      "EncodeCuda sdk (cols img) (rows img) (oss c) ctx p w0 = (Inr (), we)"
      "st = 0" "w = we\<lparr>cout := cout we @
                   [Str ''Bitstream saved in file '', Str (szOutputFileName c), Str endl]\<rparr>"
proof -
  obtain r w' where t: "main_try sdk argv (world0 d) = (r, w')"
    by (cases "main_try sdk argv (world0 d)")
  note m = main_from_try[OF t, unfolded assms]
  have w0: "calls (world0 d) = []" "failures (world0 d) = []" "cout (world0 d) = []"
    by (simp_all add: world0_def)
  from t show ?thesis
  proof (cases rule: main_try_cases)
    case (bad_option b)
    with m that(1)[of b] show ?thesis by (simp add: w0)
  next
    case help_shown
    with m have "st = 0" "w = w'" by simp_all
    with help_shown that(2) show ?thesis by (simp add: probing_def w0)
  next
    case (help_failed a)
    from help_failed(3) have p: "untouched (world0 d) w'" "list_all probe_call (calls w')"
      by (simp_all add: probing_def w0)
    show ?thesis
    proof (cases a)
      case (Throw m')
      with m help_failed(2) have sw: "st = 1" "w = w'\<lparr>cout := cout w' @ [Str m']\<rparr>"
        by simp_all
      from help_failed(3) Throw have "calls w' \<noteq> []" "failures w' = [(last (calls w'), m')]"
        by (simp_all add: probing_def w0)
      with sw p help_failed(1) that(3)[of m'] show ?thesis by (simp add: untouched_def)
    next
      case (Exit n)
      from help_failed(3) Exit obtain m' where n: "n = 1" "calls w' \<noteq> []"
        "failures w' = [(last (calls w'), m')]" "Str m' \<in> set (cout w')"
        by (auto simp add: probing_def w0)
      from m help_failed(2) Exit n(1) have "st = 1" "w = w'" by simp_all
      with n p help_failed(1) that(3)[of m'] show ?thesis by simp
    qed
  next
    case (thrown c m' k nW nH)
    with m that(4)[where c=c and m=m' and k=k and nW=nW and nH=nH] show ?thesis
      by (simp add: w0 untouched_def)
  next
    case (fatal c m' k nW nH pre)
    with m that(5)[where c=c and m=m' and k=k and nW=nW and nH=nH and pre=pre] show ?thesis
      by (simp add: w0 untouched_def)
  next
    case (gpu_out_of_range c nGpu nW nH)
    with m that(6)[where c=c and nGpu=nGpu and nW=nW and nH=nH] show ?thesis
      by (simp add: w0 untouched_def)
  next
    case (cannot_open c nGpu nW nH name)
    with m that(7)[where c=c and nGpu=nGpu and nW=nW and nH=nH and name=name] show ?thesis
      by (simp add: w0 untouched_def)
  next
    case (encode c img nGpu name ctx p w0' re we)
    note e = encode
    show ?thesis
    proof (cases re)
      case (Inl a)
      from EncodeCuda_failures[OF e(11)] Inl obtain m' where a: "a = Throw m'" by auto
      from e(12) Inl a have "r = Inl (Throw m')" "w' = we" by simp_all
      with m have "st = 1" "w = we\<lparr>cout := cout we @ [Str m']\<rparr>" by simp_all
      with that(8)[where c=c and img=img and nGpu=nGpu and name=name and ctx=ctx and p=p
          and ?w0.0=w0' and we=we and m=m'] e(1-11) Inl a
      show ?thesis by (simp add: w0)
    next
      case (Inr u)
      from e(12) Inr have "r = Inr ()" "w' = we\<lparr>cout := cout we @
                   [Str ''Bitstream saved in file '', Str (szOutputFileName c), Str endl]\<rparr>"
        by simp_all
      with m have "st = 0" "w = we\<lparr>cout := cout we @
                   [Str ''Bitstream saved in file '', Str (szOutputFileName c), Str endl]\<rparr>"
        by simp_all
      with that(9)[where c=c and img=img and nGpu=nGpu and name=name and ctx=ctx and p=p
          and ?w0.0=w0' and we=we] e(1-11) Inr
      show ?thesis by (simp add: w0)
    qed
  qed
qed

lemma map_filter_take_nil:
  assumes "List.map_filter f ys = []"
  shows "List.map_filter f (take k ys) = []"
proof -
  have "prefix (List.map_filter f (take k ys)) (List.map_filter f ys)"
    by (rule map_filter_prefix) (rule take_is_prefix)
  with assms show ?thesis by simp
qed


lemma main_opened_format:
  assumes "main sdk d argv = (st, w)"
  shows "if ParseArgs (tl argv) cli0 = Inl Help
     then \<exists>k. List.map_filter opened_format (calls w) = replicate k NV_ENC_BUFFER_FORMAT_NV12
     else \<exists>k \<le> 2. List.map_filter opened_format (calls w) = replicate k NV_ENC_BUFFER_FORMAT_ABGR
            \<and> (st = 0 \<longrightarrow> k = 2)"
  using assms
proof (cases rule: main_cases)
  case (bad_option b)
  then show ?thesis by (simp add: world0_def map_filter_simps)
next
  case help_shown
  from probe_formats[OF help_shown(3)] help_shown(1) show ?thesis by auto
next
  case (help_failed m)
  from probe_formats[OF help_failed(3)] help_failed(1) show ?thesis by auto
next
  case (thrown c m k nW nH)
  then show ?thesis
    by (simp add: map_filter_take_nil[OF opened_format_main_calls])
next
  case (fatal c m k nW nH pre)
  then show ?thesis
    by (simp add: map_filter_take_nil[OF opened_format_main_calls])
next
  case (gpu_out_of_range c nGpu nW nH)
  then show ?thesis
    by (simp add: map_filter_take_nil[OF opened_format_main_calls])
next
  case (cannot_open c nGpu nW nH name)
  then show ?thesis
    by (simp add: opened_format_main_calls)
next
  case (encode_failed c img nGpu name ctx p w0 we m)
  from EncodeCuda_opened[OF encode_failed(11)] obtain cs k where
    "calls we = calls w0 @ cs" "k \<le> 2"
    "List.map_filter opened_format cs = replicate k NV_ENC_BUFFER_FORMAT_ABGR"
    by (elim exE conjE)
  with encode_failed(1,7,12,13) show ?thesis
    by (auto simp add: map_filter_append opened_format_main_calls)
next
  case (encoded c img nGpu name ctx p w0 we)
  from EncodeCuda_opened[OF encoded(11)] obtain cs k where
    "calls we = calls w0 @ cs" "k \<le> 2"
    "List.map_filter opened_format cs = replicate k NV_ENC_BUFFER_FORMAT_ABGR"
    "(\<exists>u. Inr () = (Inr u :: abort + unit)) \<longrightarrow> k = 2"
    by (elim exE conjE) blast
  with encoded(1,7,12,13) show ?thesis
    by (auto simp add: map_filter_append opened_format_main_calls)
qed

lemma main_opened_size:
  assumes "main sdk d argv = (st, w)"
  shows "if ParseArgs (tl argv) cli0 = Inl Help
     then \<exists>k. List.map_filter opened_size (calls w) = replicate k (1280, 720)
     else (\<exists>c img. ParseArgs (tl argv) cli0 = Inr c \<and> imread sdk (szInputFileName c) = Inr img
              \<and> List.map_filter opened_size (calls w) = [(cols img, rows img)])
          \<or> (List.map_filter opened_size (calls w) = [] \<and> st \<noteq> 0)"
  using assms
proof (cases rule: main_cases)
  case (bad_option b)
  then show ?thesis by (simp add: world0_def map_filter_simps)
next
  case help_shown
  from probe_sizes[OF help_shown(3)] help_shown(1) show ?thesis by auto
next
  case (help_failed m)
  from probe_sizes[OF help_failed(3)] help_failed(1) show ?thesis by auto
next
  case (thrown c m k nW nH)
  then show ?thesis by (simp add: map_filter_take_nil[OF opened_size_main_calls])
next
  case (fatal c m k nW nH pre)
  then show ?thesis by (simp add: map_filter_take_nil[OF opened_size_main_calls])
next
  case (gpu_out_of_range c nGpu nW nH)
  then show ?thesis by (simp add: map_filter_take_nil[OF opened_size_main_calls])
next
  case (cannot_open c nGpu nW nH name)
  then show ?thesis by (simp add: opened_size_main_calls)
next
  case (encode_failed c img nGpu name ctx p w0 we m)
  from EncodeCuda_opened[OF encode_failed(11)] obtain cs j where
    j: "calls we = calls w0 @ cs" "j \<le> 1"
    "List.map_filter opened_size cs = replicate j (cols img, rows img)"
    by (elim exE conjE)
  from j(2) have "j = 0 \<or> j = 1" by auto
  with j(1,3) encode_failed(1,2,7,12,13) show ?thesis
    by (auto simp: map_filter_append opened_size_main_calls)
next
  case (encoded c img nGpu name ctx p w0 we)
  from EncodeCuda_opened[OF encoded(11)] obtain cs j where
    "calls we = calls w0 @ cs"
    "List.map_filter opened_size cs = replicate j (cols img, rows img)"
    "(\<exists>u. Inr () = (Inr u :: abort + unit)) \<longrightarrow> j = 1"
    by (elim exE conjE) blast
  with encoded(1,2,7,12,13) show ?thesis
    by (auto simp: map_filter_append opened_size_main_calls)
qed

subsection \<open>How a run ends\<close>


lemma main_bad_option:
  assumes "main sdk d argv = (st, w)" and "ParseArgs (tl argv) cli0 = Inl (BadOption b)"
  shows "st = 1 \<and> cout w = [Str (help_message sdk (Some b))] \<and> calls w = []"
  using assms by (cases rule: main_cases) (simp_all add: world0_def)





lemma main_success:
  assumes "main sdk d argv = (st, w)" and "st = 0"
  shows "failures w = [] \<and> (ParseArgs (tl argv) cli0 = Inl Help
     \<or> (\<exists>c n. ParseArgs (tl argv) cli0 = Inr c \<and> cuDeviceGetCount sdk = Inr n
           \<and> 0 \<le> iGpu c \<and> iGpu c < n \<and> ofstream_open sdk (szOutputFileName c)))"
  using assms(1)
proof (cases rule: main_cases)
  case help_shown
  then show ?thesis by simp
next
  case (encoded c img nGpu name ctx p w0 we)
  from EncodeCuda_failures[OF encoded(11)] encoded show ?thesis by simp
qed (use assms(2) in simp_all)

lemma main_gpu_decides:
  assumes "main sdk d argv = (st, w)" and "ParseArgs (tl argv) cli0 = Inr c"
    and "failures w = []" and "cuDeviceGetCount sdk = Inr n"
    and "ofstream_open sdk (szOutputFileName c)"
  shows "(st = 1 \<longleftrightarrow> iGpu c < 0 \<or> n \<le> iGpu c) \<and> (st = 0 \<longleftrightarrow> 0 \<le> iGpu c \<and> iGpu c < n)"
  using assms(1)
proof (cases rule: main_cases)
  case (gpu_out_of_range c' nGpu nW nH)
  with assms(2,4) show ?thesis by auto
next
  case (encode_failed c' img nGpu name ctx p w0 we m)
  from EncodeCuda_failures[OF encode_failed(11)] encode_failed(13) assms(3) show ?thesis by simp
next
  case (encoded c' img nGpu name ctx p w0 we)
  with assms(2,4) show ?thesis by auto
qed (use assms(2-5) in simp_all)

lemma main_forwards_options:
  assumes "main sdk d argv = (st, w)" and "ParseArgs (tl argv) cli0 = Inr c"
  shows "calls w \<noteq> [] \<and> hd (calls w) = Call_NvEncoderInitParam (oss c)"
  using assms(1)
proof (cases rule: main_cases)
  case (encode_failed c' img nGpu name ctx p w0 we m)
  from EncodeCuda_calls_any[OF encode_failed(11)] obtain cs where "calls we = calls w0 @ cs"
    by (elim exE conjE)
  with encode_failed(1,7,13) assms(2) show ?thesis by (simp add: main_calls_def)
next
  case (encoded c' img nGpu name ctx p w0 we)
  from EncodeCuda_calls_any[OF encoded(11)] obtain cs where "calls we = calls w0 @ cs"
    by (elim exE conjE)
  with encoded(1,7,13) assms(2) show ?thesis by (simp add: main_calls_def)
qed (use assms(2) in \<open>simp_all add: main_calls_def\<close>)

subsection \<open>Runs of the stand-in\<close>

lemma run_if:
  "ParseArgs (tl [''AppEncOpenCV'', ''-i'', ''a.jpg'', ''-o'', ''out.h264'', ''-if'', ''nv12'']) cli0
   = Inr (cli0\<lparr>szInputFileName := ''a.jpg'', szOutputFileName := ''out.h264'',
               eFormat := NV_ENC_BUFFER_FORMAT_NV12\<rparr>)"
  by (simp only: list.sel parse_if_nv12)

lemma run_size:
  "ParseArgs (tl [''AppEncOpenCV'', ''-i'', ''a.jpg'', ''-o'', ''out.h264'', ''-s'', ''640x480'']) cli0
   = Inr (cli0\<lparr>szInputFileName := ''a.jpg'', szOutputFileName := ''out.h264'',
               nWidth := 640, nHeight := 480\<rparr>)"
  by (simp only: list.sel parse_size)

lemma run_vidmem:
  "ParseArgs (tl [''AppEncOpenCV'', ''-i'', ''a.jpg'', ''-o'', ''out.h264'', ''-outputInVidMem'', ''1'']) cli0
   = Inr (cli0\<lparr>szInputFileName := ''a.jpg'', szOutputFileName := ''out.h264'',
               oss := ''-outputInVidMem 1 ''\<rparr>)"
  by (simp only: list.sel parse_vidmem)

lemma cli0_fields:
  "iGpu cli0 = 0" "szInputFileName cli0 = []" "szOutputFileName cli0 = []"
  by (simp_all add: cli0_def)



lemma main_opened_format_total:
  "if ParseArgs (tl argv) cli0 = Inl Help
   then \<exists>k. List.map_filter opened_format (calls (snd (main sdk d argv)))
              = replicate k NV_ENC_BUFFER_FORMAT_NV12
   else \<exists>k \<le> 2. List.map_filter opened_format (calls (snd (main sdk d argv)))
              = replicate k NV_ENC_BUFFER_FORMAT_ABGR
          \<and> (fst (main sdk d argv) = 0 \<longrightarrow> k = 2)"
  by (rule main_opened_format[OF prod.collapse[symmetric]])

lemma main_opened_size_total:
  "if ParseArgs (tl argv) cli0 = Inl Help
   then \<exists>k. List.map_filter opened_size (calls (snd (main sdk d argv))) = replicate k (1280, 720)
   else (\<exists>c img. ParseArgs (tl argv) cli0 = Inr c \<and> imread sdk (szInputFileName c) = Inr img
            \<and> List.map_filter opened_size (calls (snd (main sdk d argv))) = [(cols img, rows img)])
        \<or> (List.map_filter opened_size (calls (snd (main sdk d argv))) = []
            \<and> fst (main sdk d argv) \<noteq> 0)"
  by (rule main_opened_size[OF prod.collapse[symmetric]])

lemma main_forwards_options_total:
  assumes "ParseArgs (tl argv) cli0 = Inr c"
  shows "hd (calls (snd (main sdk d argv))) = Call_NvEncoderInitParam (oss c)"
  using main_forwards_options[where sdk=sdk and d=d, OF prod.collapse[symmetric] assms] by simp





lemma parse_gpu_abc:
  "ParseArgs [''-i'', ''a.jpg'', ''-o'', ''out.h264'', ''-GPU'', ''abc''] cli0
   = Inr (cli0\<lparr>szInputFileName := ''a.jpg'', szOutputFileName := ''out.h264'', iGpu := 0\<rparr>)"
  by code_simp

lemma toy_help:
  assumes "ParseArgs (tl argv) cli0 = Inl Help"
  shows "fst (main toy d argv) = 0" "calls (snd (main toy d argv)) = help_calls"
  using assms
  by (simp_all add: main_def main_try_def ParseCommandLine_def ShowHelpAndExit_def
      ShowEncoderCapability_def ShowGpuLoop.simps[of _ _ 0] ShowGpuLoop.simps[of _ _ 1]
      ShowGpuCapability_def cap_yes_no_def cap_WxH_def andThen_def call_def ck_def print_def
      ret_def exit_with_def world0_def toy_fields help_calls_def)

lemma run_help:
  "ParseArgs (tl [''AppEncOpenCV'', ''-h'']) cli0 = Inl Help"
  "fst (main toy dev0 [''AppEncOpenCV'', ''-h'']) = 0"
  "calls (snd (main toy dev0 [''AppEncOpenCV'', ''-h''])) = help_calls"
proof -
  have "ParseArgs [''-h''] cli0 = Inl Help" by code_simp
  then show p: "ParseArgs (tl [''AppEncOpenCV'', ''-h'']) cli0 = Inl Help"
    by (simp only: list.sel)
  from toy_help[OF p] show "fst (main toy dev0 [''AppEncOpenCV'', ''-h'']) = 0"
    "calls (snd (main toy dev0 [''AppEncOpenCV'', ''-h''])) = help_calls" by simp_all
qed

lemma run_help_upper:
  "ParseArgs (tl [''AppEncOpenCV'', ''-H'']) cli0 = Inl Help"
  "fst (main toy dev0 [''AppEncOpenCV'', ''-H'']) = 0"
  "calls (snd (main toy dev0 [''AppEncOpenCV'', ''-H''])) = help_calls"
proof -
  have "ParseArgs [''-H''] cli0 = Inl Help" by code_simp
  then show p: "ParseArgs (tl [''AppEncOpenCV'', ''-H'']) cli0 = Inl Help"
    by (simp only: list.sel)
  from toy_help[OF p] show "fst (main toy dev0 [''AppEncOpenCV'', ''-H'']) = 0"
    "calls (snd (main toy dev0 [''AppEncOpenCV'', ''-H''])) = help_calls" by simp_all
qed

lemma parse_upper_name_tl:
  "ParseArgs (tl [''AppEncOpenCV'', ''-if'', ''NV12'']) cli0 = Inl (BadOption ''-if'')"
  by (simp only: list.sel parse_upper_name)





lemma main_gpu_decides_total:
  assumes "ParseArgs (tl argv) cli0 = Inr c" and "failures (snd (main sdk d argv)) = []"
    and "cuDeviceGetCount sdk = Inr n" and "ofstream_open sdk (szOutputFileName c)"
  shows "(fst (main sdk d argv) = 1 \<longleftrightarrow> iGpu c < 0 \<or> n \<le> iGpu c)
       \<and> (fst (main sdk d argv) = 0 \<longleftrightarrow> 0 \<le> iGpu c \<and> iGpu c < n)"
  by (rule main_gpu_decides[where sdk=sdk and d=d, OF prod.collapse[symmetric] assms])

lemma main_bad_option_total:
  assumes "ParseArgs (tl argv) cli0 = Inl (BadOption b)"
  shows "fst (main sdk d argv) = 1
       \<and> cout (snd (main sdk d argv)) = [Str (help_message sdk (Some b))]"
  using main_bad_option[where sdk=sdk and d=d, OF prod.collapse[symmetric] assms] by simp

lemma main_success_total:
  assumes "fst (main sdk d argv) = 0"
  shows "failures (snd (main sdk d argv)) = []"
  using main_success[where sdk=sdk and d=d, OF prod.collapse[symmetric] assms] by simp

lemma names_nth:
  assumes "k < 11"
  shows "find_std vszFileFormatName (vszFileFormatName ! k) = k"
    and "vszFileFormatName ! k \<in> set vszFileFormatName"
proof -
  from assms have k: "k < length vszFileFormatName" by (simp add: vszFileFormatName_def)
  from find_std_nth[OF distinct_names k] show "find_std vszFileFormatName (vszFileFormatName ! k) = k" .
  from k show "vszFileFormatName ! k \<in> set vszFileFormatName" by (rule nth_mem)
qed

section \<open>Claims about the encode procedure\<close>

text \<open>
  C1. \<^verbatim>\<open>EncodeCuda\<close> creates and initialises the encoder, makes 375 frame submissions
  (next input frame, copy of the image into it, \<^verbatim>\<open>EncodeFrame\<close>), then one \<^verbatim>\<open>EndEncode\<close>,
  then destroys the encoder: these are the calls of every run that returns, in this
  order. A run that a failing call cuts short has made a prefix of such a sequence, so
  there is never a submission after the flush, nor a second flush, nor a 376th
  submission.
\<close>

theorem C1_submissions_then_flush:
  assumes "EncodeCuda sdk nW nH opts ctx src w = (r, w')"
  shows "\<exists>slots cs. length slots = 375 \<and> calls w' = calls w @ cs
      \<and> prefix cs (setup_calls nW nH @ concat (map (submission src) slots)
                    @ [Call_EndEncode, Call_DestroyEncoder])
      \<and> (r = Inr () \<longrightarrow> cs = setup_calls nW nH @ concat (map (submission src) slots)
                          @ [Call_EndEncode, Call_DestroyEncoder])"
proof (cases r)
  case (Inr u)
  with assms EncodeCuda_calls_ok[of sdk nW nH opts ctx src w u w'] obtain slots where
    "length slots = 375"
    "calls w' = calls w @ setup_calls nW nH @ concat (map (submission src) slots)
                  @ [Call_EndEncode, Call_DestroyEncoder]"
    by blast
  then show ?thesis
    by (intro exI[of _ slots] exI[of _ "setup_calls nW nH @ concat (map (submission src) slots)
                  @ [Call_EndEncode, Call_DestroyEncoder]"]) simp
next
  case (Inl a)
  with EncodeCuda_calls_any[OF assms] show ?thesis by auto
qed

theorem C1_witness:
  "fst (EncodeCuda toy 4 2 [] 1 11 (world0 (\<lambda>_. 0))) = Inr ()
   \<and> (\<exists>slots. length slots = 375
        \<and> calls (snd (EncodeCuda toy 4 2 [] 1 11 (world0 (\<lambda>_. 0))))
          = setup_calls 4 2 @ concat (map (submission 11) slots) @ [Call_EndEncode, Call_DestroyEncoder])"
proof -
  obtain w' where run: "EncodeCuda toy 4 2 [] 1 11 (world0 (\<lambda>_. 0)) = (Inr (), w')"
    using toy_EncodeCuda_total by blast
  from C1_submissions_then_flush[OF run] run show ?thesis
    by (auto simp: world0_def)
qed

text \<open>
  C3. In a run of \<^verbatim>\<open>EncodeCuda\<close> that returns, the encoder has returned 376 packet
  vectors, the first 375 from \<^verbatim>\<open>EncodeFrame\<close> and the last from \<^verbatim>\<open>EndEncode\<close>; the packets
  written are those of the 375 frames followed by those of the flush, so their number
  is the sum of the two counts. If one of these packets has a byte, the output is not
  empty. The number printed after "Total frames encoded: " is this number of packets,
  provided it fits the 32-bit \<^verbatim>\<open>int nFrame\<close>.
\<close>

theorem C3_packet_count:
  assumes "EncodeCuda sdk nW nH opts ctx src w = (Inr (), w')"
  shows "\<exists>fs tail. emitted w' = emitted w @ fs @ [tail] \<and> length fs = 375
      \<and> (\<forall>v \<in> set fs. \<exists>e d e'. EncodeFrame sdk e d = Inr (v, e'))
      \<and> (\<exists>e e'. EndEncode sdk e = Inr (tail, e'))
      \<and> written w' = written w @ concat fs @ tail
      \<and> fpOut w' = fpOut w @ concat (concat fs @ tail)
      \<and> ((\<exists>p \<in> set (concat fs @ tail). p \<noteq> []) \<longrightarrow> fpOut w' \<noteq> [])
      \<and> (length (concat fs) + length tail < 2 ^ 31 \<longrightarrow>
           cout w' = cout w @ [Str ''Total frames encoded: '',
                               Num (int (length (concat fs) + length tail)), Str endl])"
proof -
  from EncodeCuda_count[OF assms] obtain fs tail where
    fs: "emitted w' = emitted w @ fs @ [tail]" "length fs = 375"
      "\<forall>v \<in> set fs. \<exists>e d e'. EncodeFrame sdk e d = Inr (v, e')"
      "\<exists>e e'. EndEncode sdk e = Inr (tail, e')"
      "written w' = written w @ concat fs @ tail"
      "fpOut w' = fpOut w @ concat (concat fs @ tail)"
      "cout w' = cout w @ [Str ''Total frames encoded: '',
                           Num (sint (of_nat (length (concat fs) + length tail) :: 32 word)), Str endl]"
    by blast
  from fs(6) have "(\<exists>p \<in> set (concat fs @ tail). p \<noteq> []) \<longrightarrow> fpOut w' \<noteq> []"
    by auto
  moreover have "length (concat fs) + length tail < 2 ^ 31 \<longrightarrow>
           cout w' = cout w @ [Str ''Total frames encoded: '',
                               Num (int (length (concat fs) + length tail)), Str endl]"
  proof
    assume "length (concat fs) + length tail < 2 ^ 31"
    from sint_count[OF this] fs(7) show "cout w' = cout w @ [Str ''Total frames encoded: '',
                               Num (int (length (concat fs) + length tail)), Str endl]"
      by (simp only:)
  qed
  ultimately show ?thesis using fs(1-6)
    by (intro exI[of _ fs] exI[of _ tail]) simp
qed

theorem C3_witness:
  "fst (EncodeCuda toy 4 2 [] 1 11 (world0 (\<lambda>_. 0))) = Inr ()
   \<and> fpOut (snd (EncodeCuda toy 4 2 [] 1 11 (world0 (\<lambda>_. 0)))) \<noteq> []
   \<and> cout (snd (EncodeCuda toy 4 2 [] 1 11 (world0 (\<lambda>_. 0))))
       = [Str ''Total frames encoded: '',
          Num (int (length (written (snd (EncodeCuda toy 4 2 [] 1 11 (world0 (\<lambda>_. 0))))))), Str endl]"
proof -
  obtain w' where run: "EncodeCuda toy 4 2 [] 1 11 (world0 (\<lambda>_. 0)) = (Inr (), w')"
    using toy_EncodeCuda_total by blast
  let ?w = "world0 (\<lambda>_. 0) :: nat world"
  from C3_packet_count[OF run] obtain fs where "\<exists>tail. emitted w' = emitted ?w @ fs @ [tail] \<and> length fs = 375
      \<and> (\<forall>v \<in> set fs. \<exists>e d e'. EncodeFrame toy e d = Inr (v, e'))
      \<and> (\<exists>e e'. EndEncode toy e = Inr (tail, e'))
      \<and> written w' = written ?w @ concat fs @ tail
      \<and> fpOut w' = fpOut ?w @ concat (concat fs @ tail)
      \<and> ((\<exists>p \<in> set (concat fs @ tail). p \<noteq> []) \<longrightarrow> fpOut w' \<noteq> [])
      \<and> (length (concat fs) + length tail < 2 ^ 31 \<longrightarrow>
           cout w' = cout ?w @ [Str ''Total frames encoded: '',
                               Num (int (length (concat fs) + length tail)), Str endl])" ..
  then obtain tail where all: "emitted w' = emitted ?w @ fs @ [tail] \<and> length fs = 375
      \<and> (\<forall>v \<in> set fs. \<exists>e d e'. EncodeFrame toy e d = Inr (v, e'))
      \<and> (\<exists>e e'. EndEncode toy e = Inr (tail, e'))
      \<and> written w' = written ?w @ concat fs @ tail
      \<and> fpOut w' = fpOut ?w @ concat (concat fs @ tail)
      \<and> ((\<exists>p \<in> set (concat fs @ tail). p \<noteq> []) \<longrightarrow> fpOut w' \<noteq> [])
      \<and> (length (concat fs) + length tail < 2 ^ 31 \<longrightarrow>
           cout w' = cout ?w @ [Str ''Total frames encoded: '',
                               Num (int (length (concat fs) + length tail)), Str endl])" ..
  then have fs: "length fs = 375"
      "\<forall>v \<in> set fs. \<exists>e d e'. EncodeFrame toy e d = Inr (v, e')"
      "\<exists>e e'. EndEncode toy e = Inr (tail, e')"
      "written w' = written ?w @ concat fs @ tail"
      "(\<exists>p \<in> set (concat fs @ tail). p \<noteq> []) \<longrightarrow> fpOut w' \<noteq> []"
      "length (concat fs) + length tail < 2 ^ 31 \<longrightarrow>
           cout w' = cout ?w @ [Str ''Total frames encoded: '',
                               Num (int (length (concat fs) + length tail)), Str endl]"
    by blast+
  from fs(3) have tail: "tail = [[255]]" by (simp add: toy_def)
  have "\<forall>v \<in> set fs. length v \<le> 1"
  proof
    fix v assume "v \<in> set fs"
    with fs(2) obtain e d e' where "EncodeFrame toy e d = Inr (v, e')" by blast
    then show "length v \<le> 1" by (cases "e = 0") (auto simp: toy_def)
  qed
  then have "length (concat fs) \<le> length fs" by (rule length_concat_le)
  with fs(1) have "length (concat fs) \<le> 375" by simp
  then have bound: "length (concat fs) + length tail < 2 ^ 31" by (simp add: tail)
  have nonempty: "\<exists>p \<in> set (concat fs @ tail). p \<noteq> []" by (simp add: tail)
  from fs(5) nonempty have "fpOut w' \<noteq> []" by (rule mp)
  moreover from fs(6) bound have "cout w' = cout ?w @ [Str ''Total frames encoded: '',
                               Num (int (length (concat fs) + length tail)), Str endl]"
    by (rule mp)
  moreover from fs(4) have "length (written w') = length (concat fs) + length tail"
    by (simp add: world0_def)
  ultimately show ?thesis using run by (simp add: world0_def)
qed

text \<open>
  C8. Every \<^verbatim>\<open>CopyToDeviceFrame\<close> of \<^verbatim>\<open>EncodeCuda\<close> reads from \<^verbatim>\<open>srcIn.data\<close>, there are
  375 of them in a run that returns, the buffer at \<^verbatim>\<open>srcIn.data\<close> is the same after the
  run as before it, and every frame handed to \<^verbatim>\<open>EncodeFrame\<close> has the content of that
  buffer.
\<close>

theorem C8_same_source_frame:
  assumes "EncodeCuda sdk nW nH opts ctx src w = (r, w')"
  shows "dev w' src = dev w src
     \<and> (\<exists>new k. calls w' = calls w @ new \<and> k \<le> 375
          \<and> List.map_filter copy_source new = replicate k src \<and> (r = Inr () \<longrightarrow> k = 375))
     \<and> (\<exists>j \<le> 375. submitted w' = submitted w @ replicate j (dev w src)
          \<and> (r = Inr () \<longrightarrow> j = 375))"
  using EncodeCuda_dev[OF assms] EncodeCuda_copies[OF assms] by blast

theorem C8_witness:
  "fst (EncodeCuda toy 4 2 [] 1 11 (world0 (\<lambda>a. a))) = Inr ()
   \<and> dev (snd (EncodeCuda toy 4 2 [] 1 11 (world0 (\<lambda>a. a)))) 11 = 11
   \<and> List.map_filter copy_source (calls (snd (EncodeCuda toy 4 2 [] 1 11 (world0 (\<lambda>a. a)))))
       = replicate 375 11
   \<and> submitted (snd (EncodeCuda toy 4 2 [] 1 11 (world0 (\<lambda>a. a)))) = replicate 375 11"
proof -
  obtain w' where run: "EncodeCuda toy 4 2 [] 1 11 (world0 (\<lambda>a. a)) = (Inr (), w')"
    using toy_EncodeCuda_total by blast
  from C8_same_source_frame[OF run] run show ?thesis
    by (auto simp: world0_def)
qed

section \<open>Claims about the whole program\<close>



text \<open>
  C4, as the code has it. In a run that is not a request for help (the parser does not
  stop at \<^verbatim>\<open>-h\<close>), the buffer format handed to the \<^verbatim>\<open>NvEncoderCuda\<close> constructor and to
  \<^verbatim>\<open>SetInitParams\<close> is \<^verbatim>\<open>NV_ENC_BUFFER_FORMAT_ABGR\<close>, whatever \<^verbatim>\<open>-if\<close> says: the formats of
  these calls are at most two, all ABGR, and exactly two when the run ends with status
  0. In a request for help every format handed over is NV12: there the encoder objects
  are those that \<^verbatim>\<open>ShowEncoderCapability\<close> creates to ask for the capabilities.
\<close>

theorem C4_format_is_always_ABGR:
  "if ParseArgs (tl argv) cli0 = Inl Help
   then \<exists>k. List.map_filter opened_format (calls (snd (main sdk d argv)))
              = replicate k NV_ENC_BUFFER_FORMAT_NV12
   else \<exists>k \<le> 2. List.map_filter opened_format (calls (snd (main sdk d argv)))
              = replicate k NV_ENC_BUFFER_FORMAT_ABGR
          \<and> (fst (main sdk d argv) = 0 \<longrightarrow> k = 2)"
  by (rule main_opened_format_total)

theorem C4_witness:
  "fst (main toy dev0 [''AppEncOpenCV'', ''-i'', ''a.jpg'', ''-o'', ''out.h264'', ''-if'', ''nv12'']) = 0
   \<and> ParseArgs (tl [''AppEncOpenCV'', ''-i'', ''a.jpg'', ''-o'', ''out.h264'', ''-if'', ''nv12'']) cli0
       \<noteq> Inl Help
   \<and> List.map_filter opened_format (calls (snd (main toy dev0
         [''AppEncOpenCV'', ''-i'', ''a.jpg'', ''-o'', ''out.h264'', ''-if'', ''nv12''])))
     = replicate 2 NV_ENC_BUFFER_FORMAT_ABGR
   \<and> ParseArgs (tl [''AppEncOpenCV'', ''-h'']) cli0 = Inl Help
   \<and> List.map_filter opened_format (calls (snd (main toy dev0 [''AppEncOpenCV'', ''-h''])))
     = replicate 1 NV_ENC_BUFFER_FORMAT_NV12"
proof -
  let ?argv = "[''AppEncOpenCV'', ''-i'', ''a.jpg'', ''-o'', ''out.h264'', ''-if'', ''nv12'']"
  let ?hrun = "[''AppEncOpenCV'', ''-h'']"
  have ok: "fst (main toy dev0 ?argv) = 0"
    using toy_main_ok[OF run_if, of dev0] by (simp add: cli0_fields)
  have nh: "ParseArgs (tl ?argv) cli0 \<noteq> Inl Help"
    by (simp only: run_if) simp
  from C4_format_is_always_ABGR[of ?argv toy dev0] ok nh
  have r1: "List.map_filter opened_format (calls (snd (main toy dev0 ?argv)))
      = replicate 2 NV_ENC_BUFFER_FORMAT_ABGR" by auto
  from C4_format_is_always_ABGR[of ?hrun toy dev0] run_help(1) obtain k where
    k: "List.map_filter opened_format (calls (snd (main toy dev0 ?hrun)))
      = replicate k NV_ENC_BUFFER_FORMAT_NV12" by auto
  from arg_cong[OF k, of length] have "k = 1"
    by (simp add: run_help(3) help_calls_def map_filter_simps)
  with k ok nh r1 run_help(1) show ?thesis by simp
qed

theorem C4_counterexample:
  "ParseArgs (tl [''AppEncOpenCV'', ''-i'', ''a.jpg'', ''-o'', ''out.h264'', ''-if'', ''nv12'']) cli0
     = Inr (cli0\<lparr>szInputFileName := ''a.jpg'', szOutputFileName := ''out.h264'',
                 eFormat := NV_ENC_BUFFER_FORMAT_NV12\<rparr>)
   \<and> fst (main toy dev0 [''AppEncOpenCV'', ''-i'', ''a.jpg'', ''-o'', ''out.h264'', ''-if'', ''nv12'']) = 0
   \<and> List.map_filter opened_format (calls (snd (main toy dev0
         [''AppEncOpenCV'', ''-i'', ''a.jpg'', ''-o'', ''out.h264'', ''-if'', ''nv12''])))
     = [NV_ENC_BUFFER_FORMAT_ABGR, NV_ENC_BUFFER_FORMAT_ABGR]
   \<and> NV_ENC_BUFFER_FORMAT_ABGR \<noteq> NV_ENC_BUFFER_FORMAT_NV12"
proof -
  let ?argv = "[''AppEncOpenCV'', ''-i'', ''a.jpg'', ''-o'', ''out.h264'', ''-if'', ''nv12'']"
  have ok: "fst (main toy dev0 ?argv) = 0"
    using toy_main_ok[OF run_if, of dev0] by (simp add: cli0_fields)
  have nh: "ParseArgs (tl ?argv) cli0 \<noteq> Inl Help"
    by (simp only: run_if) simp
  from main_opened_format_total[of ?argv toy dev0] ok nh
  have "List.map_filter opened_format (calls (snd (main toy dev0 ?argv)))
      = replicate 2 NV_ENC_BUFFER_FORMAT_ABGR" by auto
  with ok run_if show ?thesis by (simp add: numeral_2_eq_2)
qed

text \<open>
  C5, as the code has it. In a run that is not a request for help, the encoder is
  created with the width and the height of the image that \<^verbatim>\<open>cv::imread\<close> returned for the
  input file, whatever \<^verbatim>\<open>-s\<close> says: either the constructor is called once, with \<^verbatim>\<open>cols\<close>
  and \<^verbatim>\<open>rows\<close> of that image, or it is not called at all, and then the run does not end
  with status 0. In a request for help every encoder object is created 1280 by 720:
  there they are those that \<^verbatim>\<open>ShowEncoderCapability\<close> creates to ask for the capabilities.
\<close>

theorem C5_size_is_the_image_size:
  "if ParseArgs (tl argv) cli0 = Inl Help
   then \<exists>k. List.map_filter opened_size (calls (snd (main sdk d argv))) = replicate k (1280, 720)
   else (\<exists>c img. ParseArgs (tl argv) cli0 = Inr c \<and> imread sdk (szInputFileName c) = Inr img
            \<and> List.map_filter opened_size (calls (snd (main sdk d argv))) = [(cols img, rows img)])
        \<or> (List.map_filter opened_size (calls (snd (main sdk d argv))) = []
            \<and> fst (main sdk d argv) \<noteq> 0)"
  by (rule main_opened_size_total)

theorem C5_witness:
  "fst (main toy dev0 [''AppEncOpenCV'', ''-i'', ''a.jpg'', ''-o'', ''out.h264'', ''-s'', ''640x480'']) = 0
   \<and> List.map_filter opened_size (calls (snd (main toy dev0
         [''AppEncOpenCV'', ''-i'', ''a.jpg'', ''-o'', ''out.h264'', ''-s'', ''640x480''])))
     = [(4, 2)]
   \<and> ParseArgs (tl [''AppEncOpenCV'', ''-H'']) cli0 = Inl Help
   \<and> List.map_filter opened_size (calls (snd (main toy dev0 [''AppEncOpenCV'', ''-H''])))
     = replicate 1 (1280, 720)"
proof -
  let ?argv = "[''AppEncOpenCV'', ''-i'', ''a.jpg'', ''-o'', ''out.h264'', ''-s'', ''640x480'']"
  let ?hrun = "[''AppEncOpenCV'', ''-H'']"
  have ok: "fst (main toy dev0 ?argv) = 0"
    using toy_main_ok[OF run_size, of dev0] by (simp add: cli0_fields)
  have nh: "ParseArgs (tl ?argv) cli0 \<noteq> Inl Help"
    by (simp only: run_size) simp
  from C5_size_is_the_image_size[of ?argv toy dev0] ok nh run_size
  have r1: "List.map_filter opened_size (calls (snd (main toy dev0 ?argv))) = [(4, 2)]"
    by (auto simp: toy_fields)
  from C5_size_is_the_image_size[of ?hrun toy dev0] run_help_upper(1) obtain k where
    k: "List.map_filter opened_size (calls (snd (main toy dev0 ?hrun))) = replicate k (1280, 720)"
    by auto
  from arg_cong[OF k, of length] have "k = 1"
    by (simp add: run_help_upper(3) help_calls_def map_filter_simps)
  with k ok r1 run_help_upper(1) show ?thesis by simp
qed

theorem C5_counterexample:
  "ParseArgs (tl [''AppEncOpenCV'', ''-i'', ''a.jpg'', ''-o'', ''out.h264'', ''-s'', ''640x480'']) cli0
     = Inr (cli0\<lparr>szInputFileName := ''a.jpg'', szOutputFileName := ''out.h264'',
                 nWidth := 640, nHeight := 480\<rparr>)
   \<and> fst (main toy dev0 [''AppEncOpenCV'', ''-i'', ''a.jpg'', ''-o'', ''out.h264'', ''-s'', ''640x480'']) = 0
   \<and> List.map_filter opened_size (calls (snd (main toy dev0
         [''AppEncOpenCV'', ''-i'', ''a.jpg'', ''-o'', ''out.h264'', ''-s'', ''640x480''])))
     = [(4, 2)]"
proof -
  let ?argv = "[''AppEncOpenCV'', ''-i'', ''a.jpg'', ''-o'', ''out.h264'', ''-s'', ''640x480'']"
  have ok: "fst (main toy dev0 ?argv) = 0"
    using toy_main_ok[OF run_size, of dev0] by (simp add: cli0_fields)
  have nh: "ParseArgs (tl ?argv) cli0 \<noteq> Inl Help"
    by (simp only: run_size) simp
  from main_opened_size_total[of ?argv toy dev0] ok nh run_size
  have "List.map_filter opened_size (calls (snd (main toy dev0 ?argv))) = [(4, 2)]"
    by (auto simp: toy_fields)
  with ok run_size show ?thesis by simp
qed

text \<open>
  C6. The command line \<^verbatim>\<open>-i a.jpg -o out.h264 -outputInVidMem 1\<close>: the parser has no
  case for \<^verbatim>\<open>-outputInVidMem\<close>, the flag and its value go into the encoder options, and
  these are what the program hands to \<^verbatim>\<open>NvEncoderInitParam\<close>.
\<close>

theorem C6_vidmem_flag_is_forwarded:
  "ParseArgs (tl [''AppEncOpenCV'', ''-i'', ''a.jpg'', ''-o'', ''out.h264'', ''-outputInVidMem'', ''1'']) cli0
     = Inr (cli0\<lparr>szInputFileName := ''a.jpg'', szOutputFileName := ''out.h264'',
                 oss := ''-outputInVidMem 1 ''\<rparr>)
   \<and> hd (calls (snd (main toy dev0
         [''AppEncOpenCV'', ''-i'', ''a.jpg'', ''-o'', ''out.h264'', ''-outputInVidMem'', ''1''])))
     = Call_NvEncoderInitParam ''-outputInVidMem 1 ''"
proof -
  let ?argv = "[''AppEncOpenCV'', ''-i'', ''a.jpg'', ''-o'', ''out.h264'', ''-outputInVidMem'', ''1'']"
  from main_forwards_options_total[OF run_vidmem, of toy dev0] run_vidmem
  show ?thesis by simp
qed




section \<open>Claims about the command line\<close>

text \<open>
  C9, as the code has it. When the parser is at \<^verbatim>\<open>-gpu\<close> (in any case of the letters)
  and a token follows, it never stops there: the ordinal becomes \<^verbatim>\<open>atoi\<close> of the token
  and parsing goes on. That number is a 32-bit \<^verbatim>\<open>int\<close>. It is 0 when the token has no
  digit at all. When the token begins with a run of digits, not followed by another
  digit, whose value is below \<open>2\<^sup>3\<^sup>1\<close>, it is that value, whatever comes after the digits.
  The ordinal is judged in \<^verbatim>\<open>main\<close> only: in a run where the command line was parsed, no
  library call failed and the output opens, the status is 1 exactly when the ordinal is
  negative or not below the device count, and 0 exactly when it is in range.
\<close>

theorem C9_gpu_token_goes_through_atoi:
  assumes "stricmp a ''-gpu''"
  shows "ParseArgs (a # v # rest) st = ParseArgs rest (st\<lparr>iGpu := atoi v\<rparr>)
     \<and> - (2 ^ 31) \<le> atoi v \<and> atoi v < 2 ^ 31
     \<and> ((\<forall>ch \<in> set v. \<not> isdigit_c ch) \<longrightarrow> atoi v = 0)
     \<and> (ds \<noteq> [] \<and> (\<forall>ch \<in> set ds. isdigit_c ch) \<and> (r = [] \<or> \<not> isdigit_c (hd r))
          \<and> digits_value 0 ds < 2 ^ 31 \<longrightarrow> atoi (ds @ r) = digits_value 0 ds)
     \<and> (ParseArgs (tl argv) cli0 = Inr c \<and> failures (snd (main sdk d argv)) = []
          \<and> cuDeviceGetCount sdk = Inr n \<and> ofstream_open sdk (szOutputFileName c) \<longrightarrow>
         (fst (main sdk d argv) = 1 \<longleftrightarrow> iGpu c < 0 \<or> n \<le> iGpu c)
         \<and> (fst (main sdk d argv) = 0 \<longleftrightarrow> 0 \<le> iGpu c \<and> iGpu c < n))"
proof (intro conjI impI)
  show "ParseArgs (a # v # rest) st = ParseArgs rest (st\<lparr>iGpu := atoi v\<rparr>)"
    by (rule ParseArgs_gpu[OF assms])
  show "- (2 ^ 31) \<le> atoi v" "atoi v < 2 ^ 31"
    using atoi_range[of v] by simp_all
  show "atoi v = 0" if "\<forall>ch \<in> set v. \<not> isdigit_c ch"
    using that by (rule atoi_no_digit)
next
  assume h: "ds \<noteq> [] \<and> (\<forall>ch \<in> set ds. isdigit_c ch) \<and> (r = [] \<or> \<not> isdigit_c (hd r))
          \<and> digits_value 0 ds < 2 ^ 31"
  then show "atoi (ds @ r) = digits_value 0 ds"
    by (intro atoi_leading_digits) blast+
next
  assume h: "ParseArgs (tl argv) cli0 = Inr c \<and> failures (snd (main sdk d argv)) = []
          \<and> cuDeviceGetCount sdk = Inr n \<and> ofstream_open sdk (szOutputFileName c)"
  then have "(fst (main sdk d argv) = 1 \<longleftrightarrow> iGpu c < 0 \<or> n \<le> iGpu c)
       \<and> (fst (main sdk d argv) = 0 \<longleftrightarrow> 0 \<le> iGpu c \<and> iGpu c < n)"
    by (intro main_gpu_decides_total) blast+
  then show "fst (main sdk d argv) = 1 \<longleftrightarrow> iGpu c < 0 \<or> n \<le> iGpu c"
    "fst (main sdk d argv) = 0 \<longleftrightarrow> 0 \<le> iGpu c \<and> iGpu c < n" by blast+
qed

theorem C9_witness:
  "stricmp ''-GPU'' ''-gpu''
   \<and> ParseArgs [''-GPU'', ''abc''] cli0 = Inr (cli0\<lparr>iGpu := 0\<rparr>)
   \<and> fst (main toy dev0 [''AppEncOpenCV'', ''-i'', ''a.jpg'', ''-o'', ''out.h264'', ''-GPU'', ''abc'']) = 0
   \<and> 0 \<le> iGpu (cli0\<lparr>szInputFileName := ''a.jpg'', szOutputFileName := ''out.h264'', iGpu := 0\<rparr>)
   \<and> atoi (''12'' @ ''x3'') = 12"
proof -
  let ?argv = "[''AppEncOpenCV'', ''-i'', ''a.jpg'', ''-o'', ''out.h264'', ''-GPU'', ''abc'']"
  let ?c = "cli0\<lparr>szInputFileName := ''a.jpg'', szOutputFileName := ''out.h264'', iGpu := 0\<rparr>"
  have s: "stricmp ''-GPU'' ''-gpu''" by code_simp
  have nd: "\<forall>ch \<in> set ''abc''. \<not> isdigit_c ch" by code_simp
  have dg: "''12'' \<noteq> [] \<and> (\<forall>ch \<in> set ''12''. isdigit_c ch) \<and> (''x3'' = [] \<or> \<not> isdigit_c (hd ''x3''))
      \<and> digits_value 0 ''12'' < 2 ^ 31" by code_simp
  have dv: "digits_value 0 ''12'' = 12" by code_simp
  have p: "ParseArgs (tl ?argv) cli0 = Inr ?c" by (simp only: list.sel parse_gpu_abc)
  have ok: "fst (main toy dev0 ?argv) = 0" using toy_main_ok[OF p, of dev0] by simp
  have nf: "failures (snd (main toy dev0 ?argv)) = []" by (rule main_success_total[OF ok])
  note c9 = C9_gpu_token_goes_through_atoi[OF s, where v="''abc''" and rest="[]" and st=cli0
      and argv="?argv" and c="?c" and sdk=toy and d=dev0 and n=1 and ds="''12''" and r="''x3''"]
  from c9 nd have "ParseArgs [''-GPU'', ''abc''] cli0 = ParseArgs [] (cli0\<lparr>iGpu := 0\<rparr>)"
    by simp
  then have r1: "ParseArgs [''-GPU'', ''abc''] cli0 = Inr (cli0\<lparr>iGpu := 0\<rparr>)"
    by (simp add: ParseArgs.simps)
  from c9 p nf have "fst (main toy dev0 ?argv) = 0 \<longleftrightarrow> 0 \<le> iGpu ?c \<and> iGpu ?c < 1"
    by (simp add: toy_fields)
  with ok have r2: "0 \<le> iGpu ?c" by simp
  from c9 dg have "atoi (''12'' @ ''x3'') = digits_value 0 ''12''" by blast
  with dv have r3: "atoi (''12'' @ ''x3'') = 12" by simp
  from s r1 ok r2 r3 show ?thesis by (simp only: simp_thms)
qed

theorem C9_counterexample:
  "ParseArgs [''-gpu'', ''1x''] cli0 = Inr (cli0\<lparr>iGpu := 1\<rparr>)
   \<and> atoi ''1x'' = 1 \<and> \<not> isdigit_c (CHR ''x'')"
proof -
  have "atoi ''1x'' = 1" "\<not> isdigit_c (CHR ''x'')" by code_simp+
  with parse_gpu_1x show ?thesis by simp
qed

text \<open>
  C10, as the code has it. When the parser is at \<^verbatim>\<open>-if\<close> (in any case of the letters) and
  a token follows, the token is looked up with \<^verbatim>\<open>std::find\<close>, that is, compared exactly:
  it is accepted if and only if it is one of the eleven names as they are written, in
  lower case, and the format becomes the entry at the index of the name. Every other
  token, another spelling of a name included, makes the parser stop with a help error on
  \<^verbatim>\<open>-if\<close>; when \<^verbatim>\<open>-if\<close> is the first argument, the run then ends with status 1 and the
  text of that error. The name \<^verbatim>\<open>yv12\<close> is the third entry and maps to
  \<^verbatim>\<open>NV_ENC_BUFFER_FORMAT_YV12\<close>, and it does not occur in the options that
  \<^verbatim>\<open>ShowHelpAndExit\<close> prints.
\<close>

theorem C10_format_names_are_exact:
  assumes "stricmp a ''-if''"
  shows "ParseArgs (a # v # rest) st =
           (if v \<in> set [''iyuv'', ''nv12'', ''yv12'', ''yuv444'', ''p010'', ''yuv444p16'',
                         ''bgra'', ''bgra10'', ''ayuv'', ''abgr'', ''abgr10'']
            then ParseArgs rest (st\<lparr>eFormat := aFormat ! find_std vszFileFormatName v\<rparr>)
            else Inl (BadOption ''-if''))
     \<and> (\<forall>k < 11. ParseArgs (a # vszFileFormatName ! k # rest) st
                    = ParseArgs rest (st\<lparr>eFormat := aFormat ! k\<rparr>))
     \<and> (v \<notin> set vszFileFormatName \<longrightarrow>
           fst (main sdk d (prog # a # v # rest)) = 1
           \<and> cout (snd (main sdk d (prog # a # v # rest))) = [Str (help_message sdk (Some ''-if''))])
     \<and> vszFileFormatName ! 2 = ''yv12'' \<and> aFormat ! 2 = NV_ENC_BUFFER_FORMAT_YV12
     \<and> \<not> sublist ''yv12'' (concat help_options)"
proof (intro conjI allI impI)
  show "ParseArgs (a # v # rest) st =
           (if v \<in> set [''iyuv'', ''nv12'', ''yv12'', ''yuv444'', ''p010'', ''yuv444p16'',
                         ''bgra'', ''bgra10'', ''ayuv'', ''abgr'', ''abgr10'']
            then ParseArgs rest (st\<lparr>eFormat := aFormat ! find_std vszFileFormatName v\<rparr>)
            else Inl (BadOption ''-if''))"
    using ParseArgs_if[OF assms, of v rest st] by (simp only: vszFileFormatName_def)
next
  fix k :: nat assume k: "k < 11"
  from names_nth[OF k] ParseArgs_if[OF assms, of "vszFileFormatName ! k" rest st]
  show "ParseArgs (a # vszFileFormatName ! k # rest) st = ParseArgs rest (st\<lparr>eFormat := aFormat ! k\<rparr>)"
    by simp
next
  assume "v \<notin> set vszFileFormatName"
  have p: "ParseArgs (tl (prog # a # v # rest)) cli0 = Inl (BadOption ''-if'')"
    using ParseArgs_if[OF assms, of v rest cli0] \<open>v \<notin> set vszFileFormatName\<close> by simp
  from main_bad_option_total[OF p, of sdk d]
  show "fst (main sdk d (prog # a # v # rest)) = 1"
    "cout (snd (main sdk d (prog # a # v # rest))) = [Str (help_message sdk (Some ''-if''))]"
    by simp_all
next
  show "vszFileFormatName ! 2 = ''yv12''" by (simp add: vszFileFormatName_def)
  show "aFormat ! 2 = NV_ENC_BUFFER_FORMAT_YV12" by (simp add: aFormat_def)
  show "\<not> sublist ''yv12'' (concat help_options)" by (rule no_yv12_in_help)
qed

theorem C10_witness:
  "stricmp ''-IF'' ''-if''
   \<and> ParseArgs [''-IF'', ''yv12''] cli0 = Inr (cli0\<lparr>eFormat := NV_ENC_BUFFER_FORMAT_YV12\<rparr>)
   \<and> ParseArgs [''-IF'', ''YV12''] cli0 = Inl (BadOption ''-if'')
   \<and> fst (main toy dev0 [''AppEncOpenCV'', ''-IF'', ''YV12'']) = 1"
proof -
  have s: "stricmp ''-IF'' ''-if''" by code_simp
  have in1: "''yv12'' \<in> set vszFileFormatName" "''YV12'' \<notin> set vszFileFormatName"
    by (simp_all add: vszFileFormatName_def)
  note c1 = C10_format_names_are_exact[OF s, where v="''yv12''" and rest="[]" and st=cli0
      and sdk=toy and d=dev0 and prog="''AppEncOpenCV''"]
  note c2 = C10_format_names_are_exact[OF s, where v="''YV12''" and rest="[]" and st=cli0
      and sdk=toy and d=dev0 and prog="''AppEncOpenCV''"]
  from c1 have "\<forall>k < 11. ParseArgs (''-IF'' # vszFileFormatName ! k # []) cli0
                    = ParseArgs [] (cli0\<lparr>eFormat := aFormat ! k\<rparr>)" by blast
  then have "ParseArgs (''-IF'' # vszFileFormatName ! 2 # []) cli0
                    = ParseArgs [] (cli0\<lparr>eFormat := aFormat ! 2\<rparr>)" by simp
  with c1 have r1: "ParseArgs [''-IF'', ''yv12''] cli0 = Inr (cli0\<lparr>eFormat := NV_ENC_BUFFER_FORMAT_YV12\<rparr>)"
    by (simp add: ParseArgs.simps)
  from c2 have "ParseArgs [''-IF'', ''YV12''] cli0 =
           (if ''YV12'' \<in> set [''iyuv'', ''nv12'', ''yv12'', ''yuv444'', ''p010'', ''yuv444p16'',
                         ''bgra'', ''bgra10'', ''ayuv'', ''abgr'', ''abgr10'']
            then ParseArgs [] (cli0\<lparr>eFormat := aFormat ! find_std vszFileFormatName ''YV12''\<rparr>)
            else Inl (BadOption ''-if''))" by blast
  then have r2: "ParseArgs [''-IF'', ''YV12''] cli0 = Inl (BadOption ''-if'')" by simp
  from c2 in1(2) have r3: "fst (main toy dev0 [''AppEncOpenCV'', ''-IF'', ''YV12'']) = 1" by blast
  from s r1 r2 r3 show ?thesis by simp
qed

theorem C10_counterexample:
  "ParseArgs [''-if'', ''NV12''] cli0 = Inl (BadOption ''-if'')
   \<and> fst (main toy dev0 [''AppEncOpenCV'', ''-if'', ''NV12'']) = 1"
  using parse_upper_name main_bad_option_total[OF parse_upper_name_tl, of toy dev0] by simp

end
